theory Spec2Isabelle
  imports Complex_Main "HOL-Library.AList" "HOL-Library.Multiset" "HOL-Library.Log_Nat"
begin

section \<open>Data model (types.ts)\<close>

text \<open>
  Counters and indices are integers, modelled by \<open>int\<close>. The one non-finite value the
  draft store can produce by itself is the \<open>NaN\<close> of a remainder or quotient by zero; a
  counter that may be \<open>NaN\<close> is a \<open>jsnum\<close>, with \<open>None\<close> for "not a finite number".
  The statistics of a player are read and compared only; they are the exact values of the
  binary64 numbers, as \<open>rat\<close>. Where the code multiplies and divides numbers
  (\<open>calculateAdjustedValue\<close>), the arithmetic of binary64 is modelled, see below.
\<close>

type_synonym jsnum = "int option"

datatype Position = QB | RB | WR | TE | K | DEF | DB | DL | LB

text \<open>A \<open>projectedStats\<close> object: the keys that are present, with their values.\<close>

type_synonym stat_bag = "(string \<times> rat) list"

text \<open>
  The four shapes of \<open>Player\<close>. \<open>'vorp' in player\<close> holds of the offensive shape only,
  \<open>'tier' in player\<close> of the individual-defender shape only.
\<close>

datatype PlayerStats =
    OffensiveStats (vorp: rat) (fps: rat) (projectedStats: stat_bag)
      (adp: "rat option") (auctionValue: "rat option")
  | IDPStats (tier: rat) (projectedStats: stat_bag)
  | TeamDefenseStats (projectedStats: stat_bag)
  | KickerStats (projectedStats: stat_bag)

text \<open>\<open>BasePlayer\<close>; the field \<open>id\<close> is \<open>pid\<close> here.\<close>

record Player =
  pid :: string
  name :: string
  team :: string
  position :: Position
  byeWeek :: int
  stats :: PlayerStats

record DraftPick =
  pickNumber :: int
  teamIndex :: jsnum
  player :: "Player option"
  timestamp :: "nat option"

text \<open>\<open>DraftTeam\<close>; its fields \<open>id\<close> and \<open>name\<close> are \<open>tid\<close> and \<open>teamName\<close> here.\<close>

record DraftTeam =
  tid :: string
  teamName :: string
  roster :: "Player list"
  isUser :: bool

datatype DraftType = snake | linear

record RosterPositions =
  n_QB :: int
  n_RB :: int
  n_WR :: int
  n_TE :: int
  n_WRT :: int
  n_K :: int
  n_DEF :: int
  n_DB :: int
  n_DL :: int
  n_LB :: int
  n_BN :: int
  n_IR :: int

record DraftSettings =
  numberOfTeams :: int
  userTeamIndex :: int
  draftType :: DraftType
  pickTimeLimit :: int
  rosterPositions :: RosterPositions

text \<open>
  The state of the draft store (\<open>DraftState\<close> with \<open>settings\<close> and \<open>availablePlayers\<close>).
  The field \<open>recommendations\<close> is left out: \<open>generateRecommendations\<close> writes that field
  only, and every action calls it after its own update of the state is done.
\<close>

record DraftStore =
  isActive :: bool
  currentPick :: int
  currentTeamIndex :: jsnum
  picks :: "DraftPick list"
  timeRemaining :: int
  teams :: "DraftTeam list"
  settings :: "DraftSettings option"
  availablePlayers :: "Player list"

section \<open>Arithmetic of JavaScript on integers\<close>

text \<open>\<open>a % b\<close>: the remainder has the sign of the dividend; \<open>NaN\<close> when \<open>b\<close> is zero.\<close>

definition js_rem :: "int \<Rightarrow> int \<Rightarrow> jsnum" where
  "js_rem a b = (if b = 0 then None else Some (sgn a * (\<bar>a\<bar> mod \<bar>b\<bar>)))"

text \<open>\<open>Math.ceil(a / b)\<close> and \<open>Math.floor(a / b)\<close>; not finite when \<open>b\<close> is zero.\<close>

definition js_ceil_div :: "int \<Rightarrow> int \<Rightarrow> jsnum" where
  "js_ceil_div a b = (if b = 0 then None else Some (- ((- a) div b)))"

definition js_floor_div :: "int \<Rightarrow> int \<Rightarrow> jsnum" where
  "js_floor_div a b = (if b = 0 then None else Some (a div b))"

section \<open>The draft store (draftStore.ts)\<close>

definition initialState :: DraftStore where
  "initialState = \<lparr> isActive = False, currentPick = 1, currentTeamIndex = Some 0,
     picks = [], timeRemaining = 120, teams = [], settings = None, availablePlayers = [] \<rparr>"

definition initializeDraft ::
  "DraftSettings \<Rightarrow> DraftTeam list \<Rightarrow> Player list \<Rightarrow> DraftStore \<Rightarrow> DraftStore" where
  "initializeDraft st ts players state =
     state\<lparr> settings := Some st, teams := ts, availablePlayers := players, picks := [],
       currentPick := 1, currentTeamIndex := Some 0, timeRemaining := pickTimeLimit st,
       isActive := False \<rparr>"

definition startDraft :: "DraftStore \<Rightarrow> DraftStore" where
  "startDraft state = state\<lparr> isActive := True \<rparr>"

definition pauseDraft :: "DraftStore \<Rightarrow> DraftStore" where
  "pauseDraft state = state\<lparr> isActive := False \<rparr>"

text \<open>
  \<open>teams.map((team, index) => index === i ? {...team, roster: [...team.roster, player]} : team)\<close>;
  no index is equal to \<open>NaN\<close>.
\<close>

definition addToRoster :: "jsnum \<Rightarrow> Player \<Rightarrow> DraftTeam list \<Rightarrow> DraftTeam list" where
  "addToRoster i p ts =
     map (\<lambda>(index, t). if Some (int index) = i then t\<lparr> roster := roster t @ [p] \<rparr> else t)
       (enumerate 0 ts)"

text \<open>
  \<open>teams.map((team, index) => index === i ?
     {...team, roster: team.roster.filter(p => p.id !== player.id)} : team)\<close>
\<close>

definition removeFromRoster :: "jsnum \<Rightarrow> Player \<Rightarrow> DraftTeam list \<Rightarrow> DraftTeam list" where
  "removeFromRoster i p ts =
     map (\<lambda>(index, t).
            if Some (int index) = i then t\<lparr> roster := filter (\<lambda>q. pid q \<noteq> pid p) (roster t) \<rparr>
            else t)
       (enumerate 0 ts)"

text \<open>The block "Calculate next pick" of \<open>makePick\<close>: the team index of the pick after
  \<open>currentPick\<close>.\<close>

definition makePick_nextTeamIndex :: "DraftSettings \<Rightarrow> int \<Rightarrow> jsnum \<Rightarrow> jsnum" where
  "makePick_nextTeamIndex st cp cti =
     (let totalTeams = numberOfTeams st in
      if draftType st = snake then
        let round = js_ceil_div cp totalTeams;
            pickInRound = map_option (\<lambda>r. r + 1) (js_rem (cp - 1) totalTeams)
        in if Option.bind round (\<lambda>r. js_rem r 2) = Some 1
           then (if pickInRound = Some totalTeams then Some (totalTeams - 1) else pickInRound)
           else (if pickInRound = Some totalTeams then Some 0
                 else map_option (\<lambda>k. totalTeams - k) pickInRound)
      else Option.bind cti (\<lambda>i. js_rem (i + 1) totalTeams))"

text \<open>\<open>makePick\<close>; \<open>now\<close> is the value of \<open>new Date()\<close>.\<close>

definition makePick :: "nat \<Rightarrow> Player \<Rightarrow> DraftStore \<Rightarrow> DraftStore" where
  "makePick now p state =
     (case settings state of
        None \<Rightarrow> state
      | Some st \<Rightarrow>
          let newPick = \<lparr> pickNumber = currentPick state, teamIndex = currentTeamIndex state,
                          player = Some p, timestamp = Some now \<rparr>;
              updatedTeams = addToRoster (currentTeamIndex state) p (teams state);
              updatedAvailablePlayers = filter (\<lambda>q. pid q \<noteq> pid p) (availablePlayers state);
              nextPick = currentPick state + 1;
              nextTeamIndex = makePick_nextTeamIndex st (currentPick state) (currentTeamIndex state)
          in state\<lparr> picks := picks state @ [newPick], teams := updatedTeams,
               availablePlayers := updatedAvailablePlayers, currentPick := nextPick,
               currentTeamIndex := nextTeamIndex, timeRemaining := pickTimeLimit st \<rparr>)"

text \<open>
  \<open>Array.prototype.sort\<close> with a comparator: a stable sort, modelled by insertion from
  the right, each element going before the first element it does not compare greater than.
\<close>

fun insort_cmp :: "('a \<Rightarrow> 'a \<Rightarrow> int) \<Rightarrow> 'a \<Rightarrow> 'a list \<Rightarrow> 'a list" where
  "insort_cmp cmp x [] = [x]"
| "insort_cmp cmp x (y # ys) = (if cmp x y \<le> 0 then x # y # ys else y # insort_cmp cmp x ys)"

definition js_sort :: "('a \<Rightarrow> 'a \<Rightarrow> int) \<Rightarrow> 'a list \<Rightarrow> 'a list" where
  "js_sort cmp xs = foldr (insort_cmp cmp) xs []"

text \<open>
  \<open>undoLastPick\<close>. \<open>String.prototype.localeCompare\<close> belongs to the host and depends on
  its locale, so the comparison of names is a parameter.
\<close>

definition undoLastPick :: "(string \<Rightarrow> string \<Rightarrow> int) \<Rightarrow> DraftStore \<Rightarrow> DraftStore" where
  "undoLastPick localeCompare state =
     (if picks state = [] then state
      else
        let lastPick = last (picks state) in
        case player lastPick of
          None \<Rightarrow> state
        | Some p \<Rightarrow>
            let updatedPicks = butlast (picks state);
                updatedTeams = removeFromRoster (teamIndex lastPick) p (teams state);
                updatedAvailablePlayers =
                  js_sort (\<lambda>a b. localeCompare (name a) (name b)) (availablePlayers state @ [p])
            in state\<lparr> picks := updatedPicks, teams := updatedTeams,
                 availablePlayers := updatedAvailablePlayers,
                 currentPick := pickNumber lastPick, currentTeamIndex := teamIndex lastPick \<rparr>)"

definition updateTimer :: "int \<Rightarrow> DraftStore \<Rightarrow> DraftStore" where
  "updateTimer t state = state\<lparr> timeRemaining := t \<rparr>"

text \<open>The block "Calculate next pick based on draft type" of \<open>markPlayerAsDrafted\<close>:
  the team index of pick \<open>nextPick\<close>.\<close>

definition markPlayerAsDrafted_nextTeamIndex ::
  "DraftSettings option \<Rightarrow> int \<Rightarrow> jsnum \<Rightarrow> jsnum" where
  "markPlayerAsDrafted_nextTeamIndex sto nextPick ti =
     (case sto of
        None \<Rightarrow> ti
      | Some st \<Rightarrow>
          if draftType st = snake then
            let nextRound = js_floor_div (nextPick - 1) (numberOfTeams st);
                nextPositionInRound = js_rem (nextPick - 1) (numberOfTeams st)
            in if Option.bind nextRound (\<lambda>r. js_rem r 2) = Some 0 then nextPositionInRound
               else map_option (\<lambda>k. numberOfTeams st - 1 - k) nextPositionInRound
          else Option.bind ti (\<lambda>i. js_rem (i + 1) (numberOfTeams st)))"

text \<open>\<open>markPlayerAsDrafted\<close>; the comparisons of its guard are false of \<open>NaN\<close>.\<close>

definition markPlayerAsDrafted :: "nat \<Rightarrow> Player \<Rightarrow> jsnum \<Rightarrow> DraftStore \<Rightarrow> DraftStore" where
  "markPlayerAsDrafted now p ti state =
     (let updatedAvailablePlayers = filter (\<lambda>q. pid q \<noteq> pid p) (availablePlayers state);
          updatedTeams =
            (if (case ti of None \<Rightarrow> False
                 | Some i \<Rightarrow> 0 \<le> i \<and> i < int (length (teams state)))
             then addToRoster ti p (teams state) else teams state);
          newPick = \<lparr> pickNumber = currentPick state, teamIndex = ti,
                      player = Some p, timestamp = Some now \<rparr>;
          nextPick = currentPick state + 1;
          nextTeamIndex = markPlayerAsDrafted_nextTeamIndex (settings state) nextPick ti
      in state\<lparr> availablePlayers := updatedAvailablePlayers, teams := updatedTeams,
           picks := picks state @ [newPick], currentPick := nextPick,
           currentTeamIndex := nextTeamIndex,
           timeRemaining :=
             (case settings state of
                None \<Rightarrow> 120
              | Some st \<Rightarrow> if pickTimeLimit st = 0 then 120 else pickTimeLimit st) \<rparr>)"

definition resetDraft :: "DraftStore \<Rightarrow> DraftStore" where
  "resetDraft state = initialState"

text \<open>The players on some roster.\<close>

definition rostered :: "DraftStore \<Rightarrow> Player set" where
  "rostered state = (\<Union>t \<in> set (teams state). set (roster t))"

section \<open>The callers of the draft store (DraftRoom.tsx, QuickDraftSetup.tsx)\<close>

text \<open>\<open>teams[currentTeamIndex]?.isUser\<close>\<close>

definition isUserTurn :: "DraftStore \<Rightarrow> bool" where
  "isUserTurn state =
     (case currentTeamIndex state of
        None \<Rightarrow> False
      | Some i \<Rightarrow> 0 \<le> i \<and> i < int (length (teams state)) \<and> isUser (teams state ! nat i))"

definition handlePlayerPick :: "nat \<Rightarrow> Player \<Rightarrow> DraftStore \<Rightarrow> DraftStore" where
  "handlePlayerPick now p state =
     (if \<not> isActive state then state
      else if isUserTurn state then makePick now p state
      else markPlayerAsDrafted now p (currentTeamIndex state) state)"

definition defaultRoster :: RosterPositions where
  "defaultRoster = \<lparr> n_QB = 1, n_RB = 2, n_WR = 3, n_TE = 1, n_WRT = 2, n_K = 1, n_DEF = 1,
     n_DB = 1, n_DL = 1, n_LB = 1, n_BN = 6, n_IR = 1 \<rparr>"

text \<open>The settings and the teams that \<open>QuickDraftSetup\<close> hands to \<open>initializeDraft\<close>,
  where no roster settings are stored.\<close>

definition quickSettings :: "nat \<Rightarrow> int \<Rightarrow> DraftType \<Rightarrow> int \<Rightarrow> DraftSettings" where
  "quickSettings n draftPosition dt limit =
     \<lparr> numberOfTeams = int n, userTeamIndex = draftPosition - 1, draftType = dt,
       pickTimeLimit = limit, rosterPositions = defaultRoster \<rparr>"

text \<open>The decimal digits of an index below 100, for the template strings of the team names.\<close>

definition decimal :: "nat \<Rightarrow> string" where
  "decimal n =
     (if n < 10 then [''0123456789'' ! n]
      else [''0123456789'' ! (n div 10), ''0123456789'' ! (n mod 10)])"

definition quickTeams :: "nat \<Rightarrow> int \<Rightarrow> DraftTeam list" where
  "quickTeams n draftPosition =
     map (\<lambda>index.
            \<lparr> tid = ''team-'' @ decimal index,
              teamName = (if int index = draftPosition - 1 then ''Your Team''
                          else ''Team '' @ decimal (index + 1)),
              roster = [], isUser = (int index = draftPosition - 1) \<rparr>)
       [0..<n]"

text \<open>The sum of the roster position counts (\<open>totalRosterSpots\<close> of \<open>DraftSetup\<close>).\<close>

definition totalRosterSpots :: "RosterPositions \<Rightarrow> int" where
  "totalRosterSpots r =
     n_QB r + n_RB r + n_WR r + n_TE r + n_WRT r + n_K r + n_DEF r + n_DB r + n_DL r + n_LB r
       + n_BN r + n_IR r"

text \<open>One recorded pick, by either action of the store, and a sequence of them.\<close>

datatype PickAction = MakePick nat Player | MarkDrafted nat Player jsnum

fun applyPick :: "DraftStore \<Rightarrow> PickAction \<Rightarrow> DraftStore" where
  "applyPick state (MakePick now p) = makePick now p state"
| "applyPick state (MarkDrafted now p ti) = markPlayerAsDrafted now p ti state"

section \<open>The turn order as the specification words it\<close>

text \<open>
  Linear: \<open>teamIndex = (pickNumber - 1) mod numberOfTeams\<close>. Snake: with
  \<open>round = floor((pickNumber - 1) / numberOfTeams)\<close> and
  \<open>posInRound = (pickNumber - 1) mod numberOfTeams\<close>, \<open>posInRound\<close> in an even round and
  \<open>numberOfTeams - 1 - posInRound\<close> in an odd one.
\<close>

definition turnOrder_spec :: "DraftType \<Rightarrow> int \<Rightarrow> int \<Rightarrow> int" where
  "turnOrder_spec dt pickNo n =
     (case dt of
        linear \<Rightarrow> (pickNo - 1) mod n
      | snake \<Rightarrow>
          let round = (pickNo - 1) div n; posInRound = (pickNo - 1) mod n
          in if even round then posInRound else n - 1 - posInRound)"

section \<open>Example data\<close>

definition mkPlayer :: "string \<Rightarrow> string \<Rightarrow> string \<Rightarrow> Player" where
  "mkPlayer i n t =
     \<lparr> pid = i, name = n, team = t, position = RB, byeWeek = 7,
       stats = OffensiveStats 0 0 [] None None \<rparr>"

definition playerA :: Player where
  "playerA = mkPlayer ''a-pit-rb'' ''A'' ''PIT''"

definition playerB :: Player where
  "playerB = mkPlayer ''b-bal-rb'' ''B'' ''BAL''"

definition playerC :: Player where
  "playerC = mkPlayer ''c-dal-rb'' ''C'' ''DAL''"

text \<open>A comparison of names by character code, which orders the names of the example
  players as every locale does.\<close>

fun codeCompare :: "string \<Rightarrow> string \<Rightarrow> int" where
  "codeCompare [] [] = 0"
| "codeCompare [] (y # ys) = - 1"
| "codeCompare (x # xs) [] = 1"
| "codeCompare (x # xs) (y # ys) =
     (if of_char x < (of_char y :: nat) then - 1
      else if of_char y < (of_char x :: nat) then 1
      else codeCompare xs ys)"

text \<open>A two-team snake session as \<open>QuickDraftSetup\<close> starts it, the user drafting first.\<close>

definition exampleSession :: DraftStore where
  "exampleSession =
     startDraft (initializeDraft (quickSettings 2 1 snake 120) (quickTeams 2 1)
       [playerB, playerA, playerC] initialState)"

text \<open>The session before it is started, with one player in the pool.\<close>

definition smallSession :: DraftStore where
  "smallSession =
     initializeDraft (quickSettings 2 1 snake 120) (quickTeams 2 1) [playerB] initialState"

text \<open>The example session with 30 seconds left on the clock, and a session whose pool is
  in the order of the names.\<close>

definition timedSession :: DraftStore where
  "timedSession = updateTimer 30 exampleSession"

definition sortedSession :: DraftStore where
  "sortedSession =
     initializeDraft (quickSettings 2 1 snake 120) (quickTeams 2 1)
       [playerA, playerB, playerC] initialState"

text \<open>Three actions on \<open>sortedSession\<close>: a pick, a pick for the other team, and the
  undo of the latter.\<close>

definition replayedSession :: DraftStore where
  "replayedSession =
     undoLastPick codeCompare
       (markPlayerAsDrafted 2 playerA (Some 1) (makePick 1 playerB sortedSession))"


definition rosterPlayer :: "nat \<Rightarrow> Player" where
  "rosterPlayer i = mkPlayer (''p-'' @ decimal i) (''Player '' @ decimal i) ''FA''"

text \<open>A twelve-team snake session, and one pick by each team in turn.\<close>

definition twelveTeamSession :: DraftStore where
  "twelveTeamSession =
     initializeDraft (quickSettings 12 1 snake 120) (quickTeams 12 1)
       (map rosterPlayer [0..<12]) initialState"


definition zeroRoster :: RosterPositions where
  "zeroRoster = \<lparr> n_QB = 0, n_RB = 0, n_WR = 0, n_TE = 0, n_WRT = 0, n_K = 0, n_DEF = 0,
     n_DB = 0, n_DL = 0, n_LB = 0, n_BN = 0, n_IR = 0 \<rparr>"

section \<open>Arithmetic of JavaScript on binary64 numbers\<close>

text \<open>
  A JavaScript number: a finite binary64 value, given by its exact value, an infinity or
  \<open>NaN\<close>. The two zeros are one here: they are equal in every comparison the code makes.
\<close>

datatype jsdouble = Fin rat | PosInf | NegInf | NaN

text \<open>The exponent \<open>e\<close> of a positive number: \<open>2^e \<le> x < 2^(e+1)\<close>.\<close>

definition floorlog2 :: "rat \<Rightarrow> int" where
  "floorlog2 x = (if 1 \<le> x then bitlen \<lfloor>x\<rfloor> - 1 else - bitlen (\<lceil>1 / x\<rceil> - 1))"

text \<open>Rounding to the nearest integer, a tie to the even one.\<close>

definition roundHalfEven :: "rat \<Rightarrow> int" where
  "roundHalfEven z =
     (let f = \<lfloor>z\<rfloor>; d = z - of_int f
      in if d < 1 / 2 then f else if 1 / 2 < d then f + 1 else if even f then f else f + 1)"

text \<open>
  The binary64 number that an exact result is rounded to (IEEE 754, round to nearest, ties
  to even): 53 significant bits, the unit in the last place no smaller than \<open>2^-1074\<close>
  (subnormal numbers), and an infinity when the rounded value reaches \<open>2^1024\<close>.
\<close>

definition binary64 :: "rat \<Rightarrow> jsdouble" where
  "binary64 x =
     (if x = 0 then Fin 0
      else
        let q = max (floorlog2 \<bar>x\<bar> - 52) (- 1074);
            y = of_int (roundHalfEven (x / 2 powi q)) * 2 powi q
        in if 2 ^ 1024 \<le> y then PosInf else if y \<le> - (2 ^ 1024) then NegInf else Fin y)"

text \<open>\<open>x * y\<close>\<close>

fun js_times :: "jsdouble \<Rightarrow> jsdouble \<Rightarrow> jsdouble" where
  "js_times (Fin a) (Fin b) = binary64 (a * b)"
| "js_times NaN y = NaN"
| "js_times x NaN = NaN"
| "js_times (Fin a) PosInf = (if a = 0 then NaN else if 0 < a then PosInf else NegInf)"
| "js_times (Fin a) NegInf = (if a = 0 then NaN else if 0 < a then NegInf else PosInf)"
| "js_times PosInf (Fin b) = (if b = 0 then NaN else if 0 < b then PosInf else NegInf)"
| "js_times NegInf (Fin b) = (if b = 0 then NaN else if 0 < b then NegInf else PosInf)"
| "js_times PosInf PosInf = PosInf"
| "js_times PosInf NegInf = NegInf"
| "js_times NegInf PosInf = NegInf"
| "js_times NegInf NegInf = PosInf"

text \<open>\<open>x / y\<close>; a zero divisor is taken as the positive zero.\<close>

fun js_divide :: "jsdouble \<Rightarrow> jsdouble \<Rightarrow> jsdouble" where
  "js_divide (Fin a) (Fin b) =
     (if b = 0 then (if a = 0 then NaN else if 0 < a then PosInf else NegInf)
      else binary64 (a / b))"
| "js_divide NaN y = NaN"
| "js_divide x NaN = NaN"
| "js_divide (Fin a) PosInf = Fin 0"
| "js_divide (Fin a) NegInf = Fin 0"
| "js_divide PosInf (Fin b) = (if 0 \<le> b then PosInf else NegInf)"
| "js_divide NegInf (Fin b) = (if 0 \<le> b then NegInf else PosInf)"
| "js_divide PosInf PosInf = NaN"
| "js_divide PosInf NegInf = NaN"
| "js_divide NegInf PosInf = NaN"
| "js_divide NegInf NegInf = NaN"

text \<open>
  \<open>Math.round(x)\<close>: the nearest integer, a half going up. On a binary64 number the
  result is exact: below \<open>2^52\<close> the integer is a binary64 number, and from there on the
  number is an integer itself.
\<close>

fun Math_round :: "jsdouble \<Rightarrow> jsdouble" where
  "Math_round (Fin y) = Fin (of_int \<lfloor>y + 1 / 2\<rfloor>)"
| "Math_round x = x"

text \<open>\<open>x < y\<close>\<close>

fun js_less :: "jsdouble \<Rightarrow> jsdouble \<Rightarrow> bool" where
  "js_less (Fin a) (Fin b) = (a < b)"
| "js_less NaN y = False"
| "js_less x NaN = False"
| "js_less x NegInf = False"
| "js_less PosInf y = False"
| "js_less NegInf y = True"
| "js_less x PosInf = True"

text \<open>The numbers that are binary64 values.\<close>

fun isBinary64 :: "jsdouble \<Rightarrow> bool" where
  "isBinary64 (Fin a) = (binary64 a = Fin a)"
| "isBinary64 x = True"

text \<open>A finite number between two bounds.\<close>

fun inRange :: "jsdouble \<Rightarrow> rat \<Rightarrow> rat \<Rightarrow> bool" where
  "inRange (Fin a) lo hi = (lo \<le> a \<and> a \<le> hi)"
| "inRange x lo hi = False"

section \<open>The user preferences store (userPreferencesStore.ts)\<close>

text \<open>\<open>PlayerNote\<close>; its field \<open>note\<close> is \<open>noteText\<close> here.\<close>

record PlayerNote =
  playerId :: string
  noteText :: string
  isTarget :: bool
  isAvoid :: bool
  customRanking :: "jsdouble option"

datatype DraftStrategy = conservative | balanced | aggressive

record UserPreferences =
  favoriteTeams :: "string list"
  avoidTeams :: "string list"
  playerNotes :: "PlayerNote list"
  draftStrategy :: DraftStrategy
  prioritizePositions :: "Position list"

text \<open>
  \<open>Partial<PlayerNote>\<close>: the keys that an update carries. A key can be present with
  the value \<open>undefined\<close>, as in \<open>{ customRanking: undefined }\<close>.
\<close>

record NoteUpdates =
  u_note :: "string option"
  u_isTarget :: "bool option"
  u_isAvoid :: "bool option"
  u_customRanking :: "jsdouble option option"

definition noUpdates :: NoteUpdates where
  "noUpdates = \<lparr> u_note = None, u_isTarget = None, u_isAvoid = None, u_customRanking = None \<rparr>"

text \<open>\<open>{ ...n, ...updates }\<close>\<close>

definition applyUpdates :: "PlayerNote \<Rightarrow> NoteUpdates \<Rightarrow> PlayerNote" where
  "applyUpdates n u =
     n\<lparr> noteText := (case u_note u of None \<Rightarrow> noteText n | Some v \<Rightarrow> v),
        isTarget := (case u_isTarget u of None \<Rightarrow> isTarget n | Some v \<Rightarrow> v),
        isAvoid := (case u_isAvoid u of None \<Rightarrow> isAvoid n | Some v \<Rightarrow> v),
        customRanking := (case u_customRanking u of None \<Rightarrow> customRanking n | Some v \<Rightarrow> v) \<rparr>"

definition defaultPreferences :: UserPreferences where
  "defaultPreferences = \<lparr> favoriteTeams = [], avoidTeams = [], playerNotes = [],
     draftStrategy = balanced, prioritizePositions = [RB, WR] \<rparr>"

definition getPlayerNote :: "UserPreferences \<Rightarrow> string \<Rightarrow> PlayerNote option" where
  "getPlayerNote state i = find (\<lambda>n. playerId n = i) (playerNotes state)"

definition addPlayerNote :: "string \<Rightarrow> string \<Rightarrow> UserPreferences \<Rightarrow> UserPreferences" where
  "addPlayerNote i txt state =
     (case find (\<lambda>n. playerId n = i) (playerNotes state) of
        Some existingNote \<Rightarrow>
          state\<lparr> playerNotes :=
            map (\<lambda>n. if playerId n = i then n\<lparr> noteText := txt \<rparr> else n) (playerNotes state) \<rparr>
      | None \<Rightarrow>
          state\<lparr> playerNotes := playerNotes state @
            [\<lparr> playerId = i, noteText = txt, isTarget = False, isAvoid = False,
               customRanking = None \<rparr>] \<rparr>)"

definition updatePlayerNote ::
  "string \<Rightarrow> NoteUpdates \<Rightarrow> UserPreferences \<Rightarrow> UserPreferences" where
  "updatePlayerNote i updates state =
     state\<lparr> playerNotes :=
       map (\<lambda>n. if playerId n = i then applyUpdates n updates else n) (playerNotes state) \<rparr>"

definition removePlayerNote :: "string \<Rightarrow> UserPreferences \<Rightarrow> UserPreferences" where
  "removePlayerNote i state =
     state\<lparr> playerNotes := filter (\<lambda>n. playerId n \<noteq> i) (playerNotes state) \<rparr>"

definition setPlayerTarget :: "string \<Rightarrow> bool \<Rightarrow> UserPreferences \<Rightarrow> UserPreferences" where
  "setPlayerTarget i b state =
     (case find (\<lambda>n. playerId n = i) (playerNotes state) of
        Some existingNote \<Rightarrow>
          updatePlayerNote i
            (noUpdates\<lparr> u_isTarget := Some b,
               u_isAvoid := Some (if b then False else isAvoid existingNote) \<rparr>) state
      | None \<Rightarrow>
          updatePlayerNote i (noUpdates\<lparr> u_isTarget := Some b \<rparr>) (addPlayerNote i [] state))"

definition setPlayerAvoid :: "string \<Rightarrow> bool \<Rightarrow> UserPreferences \<Rightarrow> UserPreferences" where
  "setPlayerAvoid i b state =
     (case find (\<lambda>n. playerId n = i) (playerNotes state) of
        Some existingNote \<Rightarrow>
          updatePlayerNote i
            (noUpdates\<lparr> u_isAvoid := Some b,
               u_isTarget := Some (if b then False else isTarget existingNote) \<rparr>) state
      | None \<Rightarrow>
          updatePlayerNote i (noUpdates\<lparr> u_isAvoid := Some b \<rparr>) (addPlayerNote i [] state))"

definition setCustomRanking :: "string \<Rightarrow> jsdouble \<Rightarrow> UserPreferences \<Rightarrow> UserPreferences" where
  "setCustomRanking i ranking state =
     (case find (\<lambda>n. playerId n = i) (playerNotes state) of
        Some existingNote \<Rightarrow>
          updatePlayerNote i (noUpdates\<lparr> u_customRanking := Some (Some ranking) \<rparr>) state
      | None \<Rightarrow>
          updatePlayerNote i (noUpdates\<lparr> u_customRanking := Some (Some ranking) \<rparr>)
            (addPlayerNote i [] state))"

definition clearCustomRanking :: "string \<Rightarrow> UserPreferences \<Rightarrow> UserPreferences" where
  "clearCustomRanking i state =
     updatePlayerNote i (noUpdates\<lparr> u_customRanking := Some None \<rparr>) state"

definition isPlayerTarget :: "UserPreferences \<Rightarrow> string \<Rightarrow> bool" where
  "isPlayerTarget state i = (case getPlayerNote state i of None \<Rightarrow> False | Some n \<Rightarrow> isTarget n)"

definition isPlayerAvoid :: "UserPreferences \<Rightarrow> string \<Rightarrow> bool" where
  "isPlayerAvoid state i = (case getPlayerNote state i of None \<Rightarrow> False | Some n \<Rightarrow> isAvoid n)"

definition getCustomRanking :: "UserPreferences \<Rightarrow> string \<Rightarrow> jsdouble option" where
  "getCustomRanking state i =
     (case getPlayerNote state i of None \<Rightarrow> None | Some n \<Rightarrow> customRanking n)"

text \<open>\<open>Math.round(x * 100) / 100\<close>\<close>

definition roundTwoDecimals :: "jsdouble \<Rightarrow> jsdouble" where
  "roundTwoDecimals x = js_divide (Math_round (js_times x (Fin 100))) (Fin 100)"

text \<open>The literals \<open>1.2\<close>, \<open>0.6\<close>, \<open>1.1\<close> and \<open>0.9\<close> are the binary64 numbers nearest
  to them.\<close>

definition calculateAdjustedValue ::
  "UserPreferences \<Rightarrow> Player \<Rightarrow> jsdouble \<Rightarrow> jsdouble" where
  "calculateAdjustedValue state p baseValue =
     (case getPlayerNote state (pid p) of
        None \<Rightarrow> baseValue
      | Some n \<Rightarrow>
          let adjustedValue0 =
                (case customRanking n of Some r \<Rightarrow> js_times r (Fin 2) | None \<Rightarrow> baseValue);
              adjustedValue1 =
                (if isTarget n then js_times adjustedValue0 (binary64 (12 / 10))
                 else if isAvoid n then js_times adjustedValue0 (binary64 (6 / 10))
                 else adjustedValue0);
              favoriteBoost =
                (if team p \<in> set (favoriteTeams state) then binary64 (11 / 10) else Fin 1);
              avoidPenalty =
                (if team p \<in> set (avoidTeams state) then binary64 (9 / 10) else Fin 1);
              adjustedValue2 = js_times adjustedValue1 (js_times favoriteBoost avoidPenalty)
          in roundTwoDecimals adjustedValue2)"

text \<open>
  The adjustment as the specification words it, for the preference record of the player
  (if any) and the two sets of teams: a custom rank replaces the base value by twice the
  rank; times 1.2 if target, or 0.6 if avoid; times 1.1 if the team is a favorite; times
  0.9 if the team is avoided; rounded to two decimal places.
\<close>

definition adjustedValue_spec ::
  "PlayerNote option \<Rightarrow> string set \<Rightarrow> string set \<Rightarrow> Player \<Rightarrow> jsdouble \<Rightarrow> jsdouble" where
  "adjustedValue_spec pref favorites avoided p baseValue =
     (let v1 = (case Option.bind pref customRanking of
                  Some r \<Rightarrow> js_times r (Fin 2) | None \<Rightarrow> baseValue);
          v2 = (if pref \<noteq> None \<and> isTarget (the pref) then js_times v1 (binary64 (12 / 10))
                else if pref \<noteq> None \<and> isAvoid (the pref) then js_times v1 (binary64 (6 / 10))
                else v1);
          v3 = (if team p \<in> favorites then js_times v2 (binary64 (11 / 10)) else v2);
          v4 = (if team p \<in> avoided then js_times v3 (binary64 (9 / 10)) else v3)
      in roundTwoDecimals v4)"

text \<open>A player without a mark: no preference record, or one with neither flag and no
  custom rank.\<close>

definition unmarked :: "UserPreferences \<Rightarrow> Player \<Rightarrow> bool" where
  "unmarked state p =
     (case getPlayerNote state (pid p) of
        None \<Rightarrow> True
      | Some n \<Rightarrow> \<not> isTarget n \<and> \<not> isAvoid n \<and> customRanking n = None)"

text \<open>The product \<open>favoriteBoost * avoidPenalty\<close> of \<open>calculateAdjustedValue\<close>.\<close>

definition teamFactor :: "UserPreferences \<Rightarrow> Player \<Rightarrow> jsdouble" where
  "teamFactor st p =
     js_times (if team p \<in> set (favoriteTeams st) then binary64 (11 / 10) else Fin 1)
       (if team p \<in> set (avoidTeams st) then binary64 (9 / 10) else Fin 1)"

section \<open>The player database (playerDatabase.ts)\<close>

text \<open>
  Names are strings of ASCII characters. \<open>toLowerCase\<close> on them maps the capital letters
  to the small ones.
\<close>

definition toLowerCase :: "string \<Rightarrow> string" where
  "toLowerCase =
     map (\<lambda>c. case map_of (zip ''ABCDEFGHIJKLMNOPQRSTUVWXYZ'' ''abcdefghijklmnopqrstuvwxyz'') c of
                 None \<Rightarrow> c | Some d \<Rightarrow> d)"

text \<open>The ASCII characters that \<open>\\s\<close> matches and \<open>trim\<close> strips: space, tab, line
  feed, vertical tab, form feed, carriage return.\<close>

definition isSpace :: "char \<Rightarrow> bool" where
  "isSpace c = (c \<in> set [CHR '' '', CHR 0x09, CHR 0x0A, CHR 0x0B, CHR 0x0C, CHR 0x0D])"

text \<open>\<open>[a-z0-9]\<close>\<close>

definition isLowerAlnum :: "char \<Rightarrow> bool" where
  "isLowerAlnum c = (c \<in> set ''abcdefghijklmnopqrstuvwxyz0123456789'')"

text \<open>\<open>.replace(/\\s+/g, ' ')\<close>: every maximal run of white space becomes one space;
  the flag says that the character before was white space.\<close>

fun collapseSpaces :: "bool \<Rightarrow> string \<Rightarrow> string" where
  "collapseSpaces inRun [] = []"
| "collapseSpaces inRun (c # cs) =
     (if isSpace c then (if inRun then collapseSpaces True cs else CHR '' '' # collapseSpaces True cs)
      else c # collapseSpaces False cs)"

definition trim :: "string \<Rightarrow> string" where
  "trim s = rev (dropWhile isSpace (rev (dropWhile isSpace s)))"

text \<open>The words of a string between its single spaces (empty ones too), and back.\<close>

fun splitSpaces :: "string \<Rightarrow> string list" where
  "splitSpaces [] = [[]]"
| "splitSpaces (c # cs) =
     (if c = CHR '' '' then [] # splitSpaces cs
      else (case splitSpaces cs of w # ws \<Rightarrow> (c # w) # ws | [] \<Rightarrow> [[c]]))"

fun joinSpaces :: "string list \<Rightarrow> string" where
  "joinSpaces [] = []"
| "joinSpaces [w] = w"
| "joinSpaces (w # ws) = w @ CHR '' '' # joinSpaces ws"

text \<open>
  \<open>.replace(/\\b(jr|sr|iii|ii|iv)\\b/g, '')\<close> on a string of small letters, digits and
  single spaces: there a match begins and ends at the borders of a word, so the words that
  are one of the five suffixes are emptied, wherever they stand.
\<close>

definition removeSuffixes :: "string \<Rightarrow> string" where
  "removeSuffixes s =
     joinSpaces (map (\<lambda>w. if w \<in> set [''jr'', ''sr'', ''iii'', ''ii'', ''iv''] then [] else w)
       (splitSpaces s))"

definition normalizePlayerName :: "string \<Rightarrow> string" where
  "normalizePlayerName n =
     trim (removeSuffixes (trim (collapseSpaces False
       (filter (\<lambda>c. isLowerAlnum c \<or> isSpace c) (toLowerCase n)))))"

datatype ConflictType = StatsConflict | TeamConflict | PositionConflict

record Conflict =
  c_playerId :: string
  c_playerName :: string
  conflictType :: ConflictType
  sources :: "string list"

text \<open>The loop over \<open>Object.keys(offensivePlayer.projectedStats)\<close>: a value that is not
  zero is taken where the merged player has none, or zero.\<close>

definition mergeProjectedStats :: "stat_bag \<Rightarrow> stat_bag \<Rightarrow> stat_bag" where
  "mergeProjectedStats merged incoming =
     foldl (\<lambda>m (k, v).
              if v \<noteq> 0 \<and> (case map_of m k of None \<Rightarrow> True | Some w \<Rightarrow> w = 0)
              then AList.update k v m else m)
       merged incoming"

text \<open>The body of the loop of \<open>mergePlayerData\<close>, for one further player of the group.\<close>

definition mergeOne ::
  "Player \<Rightarrow> string list \<Rightarrow> Player \<times> Conflict list \<Rightarrow> Player \<Rightarrow> Player \<times> Conflict list" where
  "mergeOne basePlayer srcs acc p =
     (let (merged0, conflicts0) = acc;
          (merged1, conflicts1) =
            (if team p \<noteq> team basePlayer
             then ((if team p \<noteq> [] \<and> team merged0 = [] then merged0\<lparr> team := team p \<rparr>
                    else merged0),
                   conflicts0 @ [\<lparr> c_playerId = pid basePlayer, c_playerName = name basePlayer,
                                   conflictType = TeamConflict, sources = srcs \<rparr>])
             else (merged0, conflicts0));
          conflicts2 =
            (if position p \<noteq> position basePlayer
             then conflicts1 @ [\<lparr> c_playerId = pid basePlayer, c_playerName = name basePlayer,
                                  conflictType = PositionConflict, sources = srcs \<rparr>]
             else conflicts1);
          merged2 =
            (case (stats p, stats merged1) of
               (OffensiveStats pv pf pps pa pau, OffensiveStats mv mf mps ma mau) \<Rightarrow>
                 merged1\<lparr> stats := OffensiveStats (if pv > mv then pv else mv) mf
                                     (mergeProjectedStats mps pps) ma mau \<rparr>
             | _ \<Rightarrow> merged1);
          merged3 =
            (case (stats p, stats merged2) of
               (IDPStats pt pps, IDPStats mt mps) \<Rightarrow>
                 merged2\<lparr> stats := IDPStats (if pt < mt then pt else mt) mps \<rparr>
             | _ \<Rightarrow> merged2)
      in (merged3, conflicts2))"

text \<open>\<open>mergePlayerData\<close>, for a group of at least one player; it returns the merged
  player and the conflict list it was given, with the conflicts it has pushed.\<close>

definition mergePlayerData ::
  "Player list \<Rightarrow> Conflict list \<Rightarrow> string list \<Rightarrow> Player \<times> Conflict list" where
  "mergePlayerData playerGroup conflicts srcs =
     foldl (mergeOne (hd playerGroup) srcs) (hd playerGroup, conflicts) (tl playerGroup)"

text \<open>The map from normalized names to groups, in the order of insertion of the names.\<close>

definition groupByName :: "Player list \<Rightarrow> (string \<times> Player list) list" where
  "groupByName newPlayers =
     foldl (\<lambda>nameMap p.
              let normalizedName = normalizePlayerName (name p);
                  existing = (case map_of nameMap normalizedName of None \<Rightarrow> [] | Some g \<Rightarrow> g)
              in AList.update normalizedName (existing @ [p]) nameMap)
       [] newPlayers"

text \<open>
  \<open>PlayerMergeResult\<close>, without its \<open>stats\<close>, and with the map \<open>players\<close> of the database
  as the call leaves it (\<open>dbPlayers\<close>).
\<close>

record PlayerMergeResult =
  mergedPlayers :: "Player list"
  duplicatesFound :: nat
  conflicts :: "Conflict list"
  dbPlayers :: "(string \<times> Player) list"

definition mergePlayersFromSources ::
  "Player list \<Rightarrow> string list \<Rightarrow> (string \<times> Player) list \<Rightarrow> PlayerMergeResult" where
  "mergePlayersFromSources newPlayers srcs db =
     foldl (\<lambda>r (k, playerGroup).
              if length playerGroup = 1
              then r\<lparr> dbPlayers := AList.update (pid (hd playerGroup)) (hd playerGroup) (dbPlayers r),
                      mergedPlayers := mergedPlayers r @ [hd playerGroup] \<rparr>
              else
                let (mergedPlayer, cs) = mergePlayerData playerGroup (conflicts r) srcs
                in r\<lparr> duplicatesFound := duplicatesFound r + (length playerGroup - 1),
                      conflicts := cs,
                      dbPlayers := AList.update (pid mergedPlayer) mergedPlayer (dbPlayers r),
                      mergedPlayers := mergedPlayers r @ [mergedPlayer] \<rparr>)
       \<lparr> mergedPlayers = [], duplicatesFound = 0, conflicts = [], dbPlayers = db \<rparr>
       (groupByName newPlayers)"

text \<open>The two records of the scenario, as \<open>csvParser\<close> would make them for a running
  back, and the names of the two files.\<close>

definition henryA :: Player where
  "henryA = \<lparr> pid = ''derrick-henry-bal-rb'', name = ''Derrick Henry'', team = ''BAL'',
     position = RB, byeWeek = 7, stats = OffensiveStats 0 0 [] None None \<rparr>"

definition henryB :: Player where
  "henryB = \<lparr> pid = ''derrick-henry-jr---rb'', name = ''Derrick Henry Jr.'', team = [],
     position = RB, byeWeek = 7, stats = OffensiveStats 0 0 [] None None \<rparr>"

definition henrySources :: "string list" where
  "henrySources = [''A.csv'', ''B.csv'']"

section \<open>The pool, the rosters and the pick log\<close>

text \<open>No player is on the rosters of two teams.\<close>

definition disjointRosters :: "DraftTeam list \<Rightarrow> bool" where
  "disjointRosters ts \<longleftrightarrow>
     (\<forall>i < length ts. \<forall>j < length ts. i \<noteq> j \<longrightarrow>
        set (roster (ts ! i)) \<inter> set (roster (ts ! j)) = {})"

text \<open>Every player of the pool is available or on a roster, never both, and on the
  roster of one team only.\<close>

definition poolPartition :: "Player list \<Rightarrow> DraftStore \<Rightarrow> bool" where
  "poolPartition pool s \<longleftrightarrow>
     set (availablePlayers s) \<inter> rostered s = {} \<and>
     set (availablePlayers s) \<union> rostered s = set pool \<and>
     disjointRosters (teams s)"

text \<open>The pick log and the rosters go together: every logged pick has a player, who is
  on the roster of the team of the pick, and no player is logged twice.\<close>

definition loggedOnRosters :: "DraftStore \<Rightarrow> bool" where
  "loggedOnRosters s \<longleftrightarrow>
     distinct (map player (picks s)) \<and>
     (\<forall>pk \<in> set (picks s). 1 \<le> pickNumber pk \<and>
        (\<exists>p i. player pk = Some p \<and> teamIndex pk = Some (int i) \<and> i < length (teams s) \<and>
           p \<in> set (roster (teams s ! i))))"

text \<open>What every state of a session keeps, for the pool it was initialized with.\<close>

definition sessionInv :: "Player list \<Rightarrow> DraftStore \<Rightarrow> bool" where
  "sessionInv pool s \<longleftrightarrow>
     distinct (map pid pool) \<and>
     (\<exists>st. settings s = Some st \<and> numberOfTeams st = int (length (teams s))) \<and>
     1 \<le> currentPick s \<and>
     (\<exists>i < length (teams s). currentTeamIndex s = Some (int i)) \<and>
     poolPartition pool s \<and> loggedOnRosters s"

text \<open>
  The states of a session: it is initialized with the pool and with teams that have empty
  rosters, as many as the settings say, the players of the pool having ids of their own;
  then it is started, paused, its timer is set, players of \<open>availablePlayers\<close> are picked,
  or marked as drafted by a team that exists, and picks are undone.
\<close>

inductive reachable :: "(string \<Rightarrow> string \<Rightarrow> int) \<Rightarrow> Player list \<Rightarrow> DraftStore \<Rightarrow> bool"
  for lc :: "string \<Rightarrow> string \<Rightarrow> int" and pool :: "Player list" where
  r_initializeDraft:
    "ts \<noteq> [] \<Longrightarrow> numberOfTeams st = int (length ts) \<Longrightarrow> \<forall>t \<in> set ts. roster t = [] \<Longrightarrow>
     distinct (map pid pool) \<Longrightarrow> reachable lc pool (initializeDraft st ts pool s0)"
| r_startDraft: "reachable lc pool s \<Longrightarrow> reachable lc pool (startDraft s)"
| r_pauseDraft: "reachable lc pool s \<Longrightarrow> reachable lc pool (pauseDraft s)"
| r_updateTimer: "reachable lc pool s \<Longrightarrow> reachable lc pool (updateTimer t s)"
| r_makePick:
    "reachable lc pool s \<Longrightarrow> p \<in> set (availablePlayers s) \<Longrightarrow>
     reachable lc pool (makePick now p s)"
| r_markPlayerAsDrafted:
    "reachable lc pool s \<Longrightarrow> p \<in> set (availablePlayers s) \<Longrightarrow> 0 \<le> ti \<Longrightarrow>
     ti < int (length (teams s)) \<Longrightarrow> reachable lc pool (markPlayerAsDrafted now p (Some ti) s)"
| r_undoLastPick: "reachable lc pool s \<Longrightarrow> reachable lc pool (undoLastPick lc s)"

section \<open>Unfolding the model\<close>

lemmas example_defs = exampleSession_def smallSession_def twelveTeamSession_def startDraft_def
  initializeDraft_def quickSettings_def quickTeams_def decimal_def initialState_def
  playerA_def playerB_def playerC_def mkPlayer_def upt_conv_Cons

lemmas store_defs = makePick_def markPlayerAsDrafted_def undoLastPick_def addToRoster_def
  removeFromRoster_def makePick_nextTeamIndex_def markPlayerAsDrafted_nextTeamIndex_def
  js_rem_def js_ceil_div_def js_floor_div_def js_sort_def Let_def enumerate_eq_zip

section \<open>Rosters\<close>

lemma nth_addToRoster:
  "k < length ts \<Longrightarrow> addToRoster i p ts ! k =
     (if Some (int k) = i then (ts ! k)\<lparr> roster := roster (ts ! k) @ [p] \<rparr> else ts ! k)"
  by (simp add: addToRoster_def nth_enumerate_eq)

lemma length_addToRoster: "length (addToRoster i p ts) = length ts"
  by (simp add: addToRoster_def)

lemma nth_removeFromRoster:
  "k < length ts \<Longrightarrow> removeFromRoster i p ts ! k =
     (if Some (int k) = i
      then (ts ! k)\<lparr> roster := filter (\<lambda>q. pid q \<noteq> pid p) (roster (ts ! k)) \<rparr>
      else ts ! k)"
  by (simp add: removeFromRoster_def nth_enumerate_eq)

lemma length_removeFromRoster: "length (removeFromRoster i p ts) = length ts"
  by (simp add: removeFromRoster_def)

lemma filter_pid_id:
  "\<forall>q \<in> set xs. pid q \<noteq> pid p \<Longrightarrow> filter (\<lambda>q. pid q \<noteq> pid p) xs = xs"
  by (induction xs) auto

section \<open>Picking a player that is not available\<close>

text \<open>
  Claim C1, as the code has it. \<open>makePick\<close> does not look the player up in
  \<open>availablePlayers\<close>. For a player whose id no available player has, the call leaves the
  state as it is only when \<open>settings\<close> is null; in a configured session it is carried out:
  \<open>availablePlayers\<close> stays the same, a \<open>DraftPick\<close> for the player is appended, the roster
  of the team at \<open>currentTeamIndex\<close> grows by the player, and \<open>currentPick\<close> advances by one.
\<close>

theorem makePick_unavailable:
  assumes "\<forall>q \<in> set (availablePlayers s). pid q \<noteq> pid p"
  shows "(settings s = None \<longrightarrow> makePick now p s = s) \<and>
    (\<forall>st. settings s = Some st \<longrightarrow>
       availablePlayers (makePick now p s) = availablePlayers s \<and>
       picks (makePick now p s) =
         picks s @ [\<lparr> pickNumber = currentPick s, teamIndex = currentTeamIndex s,
                      player = Some p, timestamp = Some now \<rparr>] \<and>
       length (teams (makePick now p s)) = length (teams s) \<and>
       (\<forall>k < length (teams s). roster (teams (makePick now p s) ! k) =
           (if currentTeamIndex s = Some (int k) then roster (teams s ! k) @ [p]
            else roster (teams s ! k))) \<and>
       currentPick (makePick now p s) = currentPick s + 1)"
  using assms
  by (auto simp: makePick_def Let_def filter_pid_id nth_addToRoster length_addToRoster)

theorem makePick_unavailable_witness:
  "availablePlayers smallSession = [playerB] \<and> pid playerB \<noteq> pid playerA \<and>
   settings smallSession \<noteq> None \<and>
   availablePlayers (makePick 0 playerA smallSession) = [playerB] \<and>
   currentPick (makePick 0 playerA smallSession) = 2"
proof -
  have h: "\<forall>q \<in> set (availablePlayers smallSession). pid q \<noteq> pid playerA"
    by (simp add: example_defs)
  have st: "settings smallSession = Some (quickSettings 2 1 snake 120)"
    by (simp add: example_defs)
  from makePick_unavailable[OF h, of 0] st show ?thesis
    using h by (simp add: example_defs)
qed

text \<open>
  The claim as it is stated fails: \<open>playerA\<close> is not in the pool of \<open>smallSession\<close>, and
  \<open>makePick\<close> logs the pick, puts the player on the roster of team 0 and moves on to pick 2.
\<close>

theorem makePick_unavailable_counterexample:
  "playerA \<notin> set (availablePlayers smallSession) \<and>
   picks (makePick 0 playerA smallSession) \<noteq> picks smallSession \<and>
   roster (teams (makePick 0 playerA smallSession) ! 0) = [playerA] \<and>
   roster (teams smallSession ! 0) = [] \<and>
   currentPick (makePick 0 playerA smallSession) = 2 \<and> currentPick smallSession = 1 \<and>
   currentTeamIndex (makePick 0 playerA smallSession) = Some 1 \<and>
   currentTeamIndex smallSession = Some 0"
  by (simp add: example_defs store_defs)

section \<open>The turn order\<close>

lemma js_rem_nonneg_eq: "0 \<le> a \<Longrightarrow> 0 < b \<Longrightarrow> js_rem a b = Some (a mod b)"
  by (cases "a = 0") (auto simp: js_rem_def)

text \<open>\<open>markPlayerAsDrafted\<close> computes the turn of the next pick by the formula of the
  specification.\<close>

lemma markPlayerAsDrafted_turnOrder:
  assumes "0 < numberOfTeams st" "draftType st = snake" "1 \<le> cp"
  shows "markPlayerAsDrafted_nextTeamIndex (Some st) (cp + 1) ti
           = Some (turnOrder_spec snake (cp + 1) (numberOfTeams st))"
proof -
  let ?n = "numberOfTeams st"
  have d: "0 \<le> cp div ?n" using assms by (simp add: pos_imp_zdiv_nonneg_iff)
  have r: "js_rem cp ?n = Some (cp mod ?n)" "js_rem (cp div ?n) 2 = Some (cp div ?n mod 2)"
    using assms d by (simp_all add: js_rem_nonneg_eq)
  show ?thesis
    using assms(1,2) by (auto simp: markPlayerAsDrafted_nextTeamIndex_def turnOrder_spec_def
      js_floor_div_def r Let_def even_iff_mod_2_eq_zero)
qed

lemma ceil_div_pos:
  assumes "0 < (n::int)" "1 \<le> cp"
  shows "- ((- cp) div n) = (cp - 1) div n + 1"
proof -
  define q where "q = (cp - 1) div n"
  define m where "m = (cp - 1) mod n"
  have m: "0 \<le> m" "m < n" using assms by (simp_all add: m_def)
  have cp: "cp - 1 = n * q + m" by (simp add: q_def m_def)
  have "- cp = n * (- (q + 1)) + (n - m - 1)" using cp by (simp add: algebra_simps)
  then have "(- cp) div n = - (q + 1)"
    using m by (intro int_div_pos_eq[where r = "n - m - 1"]) auto
  then show ?thesis by (simp add: q_def)
qed

lemma next_div_mod:
  assumes "0 < (n::int)"
  shows "cp div n = (if (cp - 1) mod n + 1 = n then (cp - 1) div n + 1 else (cp - 1) div n)"
    "cp mod n = (if (cp - 1) mod n + 1 = n then 0 else (cp - 1) mod n + 1)"
proof -
  define q where "q = (cp - 1) div n"
  define m where "m = (cp - 1) mod n"
  have m: "0 \<le> m" "m < n" using assms by (simp_all add: m_def)
  have cp: "cp - 1 = n * q + m" by (simp add: q_def m_def)
  show "cp div n = (if (cp - 1) mod n + 1 = n then (cp - 1) div n + 1 else (cp - 1) div n)"
  proof (cases "m + 1 = n")
    case True
    then have "cp = n * (q + 1) + 0" using cp by (simp add: algebra_simps)
    then have "cp div n = q + 1" using assms by (intro int_div_pos_eq[where r = 0]) auto
    then show ?thesis using True by (simp add: q_def m_def)
  next
    case False
    have "cp = n * q + (m + 1)" using cp by simp
    then have "cp div n = q" using m False by (intro int_div_pos_eq[where r = "m + 1"]) auto
    then show ?thesis using False by (simp add: q_def m_def)
  qed
  show "cp mod n = (if (cp - 1) mod n + 1 = n then 0 else (cp - 1) mod n + 1)"
  proof (cases "m + 1 = n")
    case True
    then have "cp = n * (q + 1) + 0" using cp by (simp add: algebra_simps)
    then have "cp mod n = 0" using assms by (intro int_mod_pos_eq[where q = "q + 1"]) auto
    then show ?thesis using True by (simp add: q_def m_def)
  next
    case False
    have "cp = n * q + (m + 1)" using cp by simp
    then have "cp mod n = m + 1" using m False by (intro int_mod_pos_eq[where q = q]) auto
    then show ?thesis using False by (simp add: q_def m_def)
  qed
qed

text \<open>
  \<open>makePick\<close> agrees with the formula in the rounds that run upwards and at the last
  pick of every round; at the other picks of a round that runs downwards its index is the
  index of the formula plus one.
\<close>

lemma makePick_turnOrder:
  assumes "0 < numberOfTeams st" "draftType st = snake" "1 \<le> cp"
  shows "makePick_nextTeamIndex st cp cti
           = Some (turnOrder_spec snake (cp + 1) (numberOfTeams st)
               + (if odd ((cp - 1) div numberOfTeams st) \<and> cp mod numberOfTeams st \<noteq> 0 then 1 else 0))"
proof -
  let ?n = "numberOfTeams st"
  define q where "q = (cp - 1) div ?n"
  define m where "m = (cp - 1) mod ?n"
  have m: "0 \<le> m" "m < ?n" using assms by (simp_all add: m_def)
  have q: "0 \<le> q" using assms by (simp add: q_def pos_imp_zdiv_nonneg_iff)
  have c: "js_ceil_div cp ?n = Some (q + 1)"
    using assms ceil_div_pos[of ?n cp] by (simp add: js_ceil_div_def q_def)
  have r: "js_rem (cp - 1) ?n = Some m" "js_rem (q + 1) 2 = Some ((q + 1) mod 2)"
    using assms q by (simp_all add: js_rem_nonneg_eq m_def)
  have dm: "cp div ?n = (if m + 1 = ?n then q + 1 else q)" "cp mod ?n = (if m + 1 = ?n then 0 else m + 1)"
    using next_div_mod[OF assms(1), of cp] by (simp_all add: q_def m_def)
  have par: "(q + 1) mod 2 = 1 \<longleftrightarrow> even q" by presburger
  show ?thesis
    using assms(1,2) m
    by (auto simp: makePick_nextTeamIndex_def turnOrder_spec_def c r dm Let_def par
        q_def[symmetric] m_def[symmetric])
qed

text \<open>
  Claim C2, at the input where the code leaves it. In a two-team snake draft the picks go to
  the teams 0, 1, 1, 0. After three picks recorded by \<open>makePick\<close> the store is at pick 4 and
  gives it to team 1; the formula of the specification gives it to team 0, and so does
  \<open>markPlayerAsDrafted\<close> when it records the third pick.
\<close>

theorem makePick_snake_drift:
  "currentPick (foldl applyPick exampleSession
      [MakePick 1 playerB, MakePick 2 playerA, MakePick 3 playerC]) = 4 \<and>
   currentTeamIndex (foldl applyPick exampleSession
      [MakePick 1 playerB, MakePick 2 playerA, MakePick 3 playerC]) = Some 1 \<and>
   currentTeamIndex (foldl applyPick exampleSession
      [MakePick 1 playerB, MakePick 2 playerA, MarkDrafted 3 playerC (Some 1)]) = Some 0 \<and>
   turnOrder_spec snake 4 2 = 0"
  by (simp add: example_defs store_defs turnOrder_spec_def)








section \<open>Initialization\<close>

text \<open>
  Claim C8, as the code has it. \<open>initializeDraft\<close> checks nothing: for settings whose roster
  position counts sum to zero or whose \<open>numberOfTeams\<close> is zero the call is carried out like
  any other, and it overwrites the settings, the teams, the pool, the pick log, both
  counters, the timer and the activity flag.
\<close>

theorem initializeDraft_no_validation:
  assumes "totalRosterSpots (rosterPositions st) = 0 \<or> numberOfTeams st = 0"
  shows "initializeDraft st ts players state =
     \<lparr> isActive = False, currentPick = 1, currentTeamIndex = Some 0, picks = [],
       timeRemaining = pickTimeLimit st, teams = ts, settings = Some st,
       availablePlayers = players \<rparr>"
  by (cases state) (simp add: initializeDraft_def)

theorem initializeDraft_no_validation_witness:
  "numberOfTeams (quickSettings 0 1 snake 120) = 0 \<and>
   settings (initializeDraft (quickSettings 0 1 snake 120) [] [playerA] exampleSession)
     = Some (quickSettings 0 1 snake 120) \<and>
   availablePlayers (initializeDraft (quickSettings 0 1 snake 120) [] [playerA] exampleSession)
     = [playerA]"
proof -
  have h: "totalRosterSpots (rosterPositions (quickSettings 0 1 snake 120)) = 0
      \<or> numberOfTeams (quickSettings 0 1 snake 120) = 0"
    by (simp add: quickSettings_def)
  from initializeDraft_no_validation[OF h, of "[]" "[playerA]" exampleSession] h
  show ?thesis by (simp add: quickSettings_def)
qed

text \<open>
  The claim as it is stated fails, for zero teams and for roster counts that sum to zero:
  the call replaces the state it is given.
\<close>

theorem initializeDraft_no_validation_counterexample:
  "numberOfTeams (quickSettings 0 1 snake 120) = 0 \<and>
   initializeDraft (quickSettings 0 1 snake 120) [] [playerA] exampleSession
     \<noteq> exampleSession \<and>
   totalRosterSpots
     (rosterPositions ((quickSettings 2 1 snake 120)\<lparr> rosterPositions := zeroRoster \<rparr>)) = 0 \<and>
   initializeDraft ((quickSettings 2 1 snake 120)\<lparr> rosterPositions := zeroRoster \<rparr>)
     (quickTeams 2 1) [playerA] initialState \<noteq> initialState"
  by (simp add: example_defs zeroRoster_def totalRosterSpots_def)

section \<open>Marking a player as drafted by a team that does not exist\<close>



section \<open>Rounding to binary64\<close>

text \<open>
  The exponent, the rounding of the significand, the relative error of a rounded result
  (\<open>2^-53\<close>, for a result in the normal range), and that a rounded result is a binary64
  number.
\<close>

lemma pow2_le_of_int: "2 ^ n \<le> (m::int) \<Longrightarrow> (2::rat) ^ n \<le> of_int m"
  by (metis of_int_le_iff of_int_numeral of_int_power)

lemma of_int_less_pow2: "(m::int) < 2 ^ n \<Longrightarrow> (of_int m :: rat) + 1 \<le> 2 ^ n"
proof -
  assume "m < 2 ^ n"
  then have "m + 1 \<le> 2 ^ n" by simp
  then have "(of_int (m + 1) :: rat) \<le> of_int (2 ^ n)" by (simp only: of_int_le_iff)
  then show ?thesis by simp
qed

lemma floorlog2_bounds:
  assumes "0 < x"
  shows "2 powi floorlog2 x \<le> x" "x < 2 powi (floorlog2 x + 1)"
proof -
  have "2 powi floorlog2 x \<le> x \<and> x < 2 powi (floorlog2 x + 1)"
  proof (cases "1 \<le> x")
    case True
    define m where "m = \<lfloor>x\<rfloor>"
    have m: "0 < m" using True by (simp add: m_def)
    from bitlen_bounds[OF m] have b: "2 ^ nat (bitlen m - 1) \<le> m" "m < 2 ^ nat (bitlen m)"
      by auto
    have bl: "1 \<le> bitlen m" using m by (simp add: bitlen_def floorlog_def)
    have e: "floorlog2 x = bitlen m - 1" using True by (simp add: floorlog2_def m_def)
    have p1: "(2::rat) powi (bitlen m - 1) = 2 ^ nat (bitlen m - 1)"
      using bl by (simp add: power_int_def)
    have p2: "(2::rat) powi (bitlen m - 1 + 1) = 2 ^ nat (bitlen m)"
      using bl by (simp add: power_int_def)
    have "(of_int m :: rat) \<le> x" "x < of_int m + 1"
      unfolding m_def by linarith+
    then show ?thesis
      unfolding e p1 p2 using pow2_le_of_int[OF b(1)] of_int_less_pow2[OF b(2)] by linarith
  next
    case False
    define m where "m = \<lceil>1 / x\<rceil> - 1"
    have x1: "1 < 1 / x" using False assms by simp
    have m: "0 < m" using x1 unfolding m_def by linarith
    from bitlen_bounds[OF m] have b: "2 ^ nat (bitlen m - 1) \<le> m" "m < 2 ^ nat (bitlen m)"
      by auto
    have bl: "1 \<le> bitlen m" using m by (simp add: bitlen_def floorlog_def)
    have e: "floorlog2 x = - bitlen m" using False by (simp add: floorlog2_def m_def)
    have p1: "(2::rat) powi (- bitlen m) = 1 / 2 ^ nat (bitlen m)"
      using bl by (simp add: power_int_def field_simps)
    have p2: "(2::rat) powi (- bitlen m + 1) = 1 / 2 ^ nat (bitlen m - 1)"
    proof -
      have "- bitlen m + 1 = - (bitlen m - 1)" by simp
      then show ?thesis using bl by (simp add: power_int_def field_simps)
    qed
    have c: "1 / x \<le> of_int m + 1" "of_int m < 1 / x"
      unfolding m_def by linarith+
    have u: "1 / x \<le> 2 ^ nat (bitlen m)"
      using c(1) of_int_less_pow2[OF b(2)] by linarith
    have l: "2 ^ nat (bitlen m - 1) < 1 / x"
      using c(2) pow2_le_of_int[OF b(1)] by linarith
    have pos: "(0::rat) < 2 ^ nat (bitlen m)" "(0::rat) < 2 ^ nat (bitlen m - 1)"
      by simp_all
    have "1 / 2 ^ nat (bitlen m) \<le> x"
      using u assms pos(1) by (simp add: field_simps)
    moreover have "x < 1 / 2 ^ nat (bitlen m - 1)"
      using l assms pos(2) by (simp add: field_simps)
    ultimately show ?thesis unfolding e p1 p2 by simp
  qed
  then show "2 powi floorlog2 x \<le> x" "x < 2 powi (floorlog2 x + 1)" by auto
qed

lemma floorlog2_le:
  assumes "0 < x" "x < 2 powi (k + 1)"
  shows "floorlog2 x \<le> k"
proof (rule ccontr)
  assume "\<not> floorlog2 x \<le> k"
  then have "k + 1 \<le> floorlog2 x" by simp
  then have "(2::rat) powi (k + 1) \<le> 2 powi floorlog2 x"
    by (intro power_int_increasing) auto
  with floorlog2_bounds(1)[OF assms(1)] assms(2) show False by linarith
qed

lemma floorlog2_ge:
  assumes "0 < x" "2 powi k \<le> x"
  shows "k \<le> floorlog2 x"
proof (rule ccontr)
  assume "\<not> k \<le> floorlog2 x"
  then have "floorlog2 x + 1 \<le> k" by simp
  then have "(2::rat) powi (floorlog2 x + 1) \<le> 2 powi k"
    by (intro power_int_increasing) auto
  with floorlog2_bounds(2)[OF assms(1)] assms(2) show False by linarith
qed

lemma roundHalfEven_error: "\<bar>of_int (roundHalfEven z) - z\<bar> \<le> 1 / 2"
proof -
  have f: "of_int \<lfloor>z\<rfloor> \<le> z" "z < of_int \<lfloor>z\<rfloor> + 1"
    by linarith+
  show ?thesis
    unfolding roundHalfEven_def Let_def using f by (simp add: abs_le_iff)
qed

lemma roundHalfEven_of_int: "roundHalfEven (of_int m) = m"
  by (simp add: roundHalfEven_def Let_def)

lemma roundHalfEven_near:
  assumes "of_int n - 1 / 2 < z" "z < of_int n + 1 / 2"
  shows "roundHalfEven z = n"
proof -
  have e: "\<bar>of_int (roundHalfEven z) - z\<bar> \<le> 1 / 2" by (rule roundHalfEven_error)
  have "\<bar>(of_int (roundHalfEven z) :: rat) - of_int n\<bar> < 1"
    using e assms by linarith
  then have "\<bar>(of_int (roundHalfEven z - n) :: rat)\<bar> < 1" by simp
  then have "\<bar>roundHalfEven z - n\<bar> < 1"
    by (metis of_int_abs of_int_less_1_iff)
  then show ?thesis by simp
qed


lemma binary64_core:
  assumes "1 / 2 ^ 1022 \<le> x"
  shows "\<exists>y. binary64 x = (if 2 ^ 1024 \<le> y then PosInf else Fin y) \<and>
    x * (1 - 1 / 2 ^ 53) \<le> y \<and> y \<le> x * (1 + 1 / 2 ^ 53)"
proof -
  have x: "0 < x" using assms by (rule less_le_trans[rotated]) simp
  define e where "e = floorlog2 x"
  have eb: "2 powi e \<le> x" "x < 2 powi (e + 1)"
    using floorlog2_bounds[OF x] by (simp_all add: e_def)
  have e: "- 1022 \<le> e"
  proof (rule ccontr)
    assume "\<not> - 1022 \<le> e"
    then have "e + 1 \<le> - 1022" by simp
    then have "(2::rat) powi (e + 1) \<le> 2 powi (- 1022)"
      by (intro power_int_increasing) auto
    also have "(2::rat) powi (- 1022) = 1 / 2 ^ 1022"
      by (simp add: power_int_def field_simps)
    finally show False using eb(2) assms by linarith
  qed
  define q where "q = e - 52"
  have q: "max (floorlog2 \<bar>x\<bar> - 52) (- 1074) = q"
    using e x by (simp add: q_def e_def)
  define z where "z = x / 2 powi q"
  define n where "n = roundHalfEven z"
  define y :: rat where "y = of_int n * 2 powi q"
  have pq: "(0::rat) < 2 powi q" by simp
  have pe: "(2::rat) powi q = 2 powi e / 2 ^ 52"
    unfolding q_def by (subst power_int_diff) auto
  have "\<bar>y - x\<bar> = \<bar>of_int n - z\<bar> * 2 powi q"
  proof -
    have "y - x = (of_int n - z) * 2 powi q"
      using pq by (simp add: y_def z_def field_simps)
    then show ?thesis using pq by (simp add: abs_mult)
  qed
  also have "\<dots> \<le> (1 / 2) * 2 powi q"
    using roundHalfEven_error[of z] pq unfolding n_def by (intro mult_right_mono) auto
  also have "\<dots> = 2 powi e / 2 ^ 53"
    by (simp add: pe)
  also have "\<dots> \<le> x / 2 ^ 53"
    using eb(1) by (simp add: divide_right_mono)
  finally have err: "\<bar>y - x\<bar> \<le> x / 2 ^ 53" .
  then have "y - x \<le> x / 2 ^ 53" "x - y \<le> x / 2 ^ 53"
    by linarith+
  then have b: "x * (1 - 1 / 2 ^ 53) \<le> y" "y \<le> x * (1 + 1 / 2 ^ 53)"
    by (simp_all add: algebra_simps)
  have "0 < x * (1 - 1 / 2 ^ 53)" using x by simp
  then have ypos: "0 < y" using b(1) by linarith
  have "binary64 x = (if 2 ^ 1024 \<le> y then PosInf else Fin y)"
    using x ypos unfolding binary64_def q Let_def
    by (simp add: y_def n_def z_def)
  then show ?thesis using b by blast
qed

lemma binary64_fin:
  assumes "1 / 2 ^ 1022 \<le> x" "x * (1 + 1 / 2 ^ 53) < 2 ^ 1024"
  shows "\<exists>y. binary64 x = Fin y \<and> x * (1 - 1 / 2 ^ 53) \<le> y \<and> y \<le> x * (1 + 1 / 2 ^ 53)"
proof -
  from binary64_core[OF assms(1)] obtain y where
    y: "binary64 x = (if 2 ^ 1024 \<le> y then PosInf else Fin y)"
      "x * (1 - 1 / 2 ^ 53) \<le> y" "y \<le> x * (1 + 1 / 2 ^ 53)"
    by blast
  have "\<not> 2 ^ 1024 \<le> y" using y(3) assms(2) by linarith
  then show ?thesis using y by auto
qed

lemma binary64_eqI:
  assumes "x \<noteq> 0" "2 powi e \<le> \<bar>x\<bar>" "\<bar>x\<bar> < 2 powi (e + 1)"
    and "q = max (e - 52) (- 1074)"
    and "of_int n - 1 / 2 < x / 2 powi q" "x / 2 powi q < of_int n + 1 / 2"
    and "y = of_int n * 2 powi q" "y < 2 ^ 1024" "- (2 ^ 1024) < y"
  shows "binary64 x = Fin y"
proof -
  have p: "0 < \<bar>x\<bar>" using assms(1) by simp
  have "floorlog2 \<bar>x\<bar> = e"
    using floorlog2_le[OF p assms(3)] floorlog2_ge[OF p assms(2)] by simp
  then have q: "max (floorlog2 \<bar>x\<bar> - 52) (- 1074) = q" using assms(4) by simp
  have n: "roundHalfEven (x / 2 powi q) = n"
    using roundHalfEven_near[OF assms(5,6)] .
  show ?thesis
    unfolding binary64_def q Let_def n using assms(1,7,8,9) by simp
qed

lemma powi_quotient_int:
  assumes "q' \<le> q"
  shows "\<exists>m. (of_int n :: rat) * 2 powi q / 2 powi q' = of_int m"
proof -
  have "(2::rat) powi q / 2 powi q' = 2 powi (q - q')"
    by (subst power_int_diff) auto
  also have "\<dots> = 2 ^ nat (q - q')"
    using assms by (simp add: power_int_def)
  finally have e: "(2::rat) powi q / 2 powi q' = 2 ^ nat (q - q')" .
  have "(of_int n :: rat) * 2 powi q / 2 powi q' = of_int n * (2 powi q / 2 powi q')"
    by simp
  also have "\<dots> = of_int (n * 2 ^ nat (q - q'))"
    unfolding e by simp
  finally have "(of_int n :: rat) * 2 powi q / 2 powi q' = of_int (n * 2 ^ nat (q - q'))" .
  then show ?thesis by blast
qed

lemma binary64_idem:
  assumes "binary64 x = Fin y"
  shows "binary64 y = Fin y"
proof (cases "x = 0 \<or> y = 0")
  case True
  then show ?thesis using assms by (auto simp: binary64_def)
next
  case False
  then have x: "x \<noteq> 0" and y0: "y \<noteq> 0" by auto
  define q where "q = max (floorlog2 \<bar>x\<bar> - 52) (- 1074)"
  define z where "z = x / 2 powi q"
  define n where "n = roundHalfEven z"
  have pq: "(0::rat) < 2 powi q" by simp
  define w :: rat where "w = of_int n * 2 powi q"
  have b: "binary64 x =
      (if 2 ^ 1024 \<le> w then PosInf else if w \<le> - (2 ^ 1024) then NegInf else Fin w)"
    using x unfolding binary64_def Let_def w_def n_def z_def q_def by simp
  have y: "y = of_int n * 2 powi q" and r: "\<not> 2 ^ 1024 \<le> y" "\<not> y \<le> - (2 ^ 1024)"
    using assms unfolding b w_def by (auto split: if_splits)
  have p: "0 < \<bar>x\<bar>" using x by simp
  have "\<bar>x\<bar> < 2 powi (floorlog2 \<bar>x\<bar> + 1)" using floorlog2_bounds(2)[OF p] .
  also have "\<dots> \<le> 2 powi (q + 53)"
    by (intro power_int_increasing) (auto simp: q_def)
  also have "\<dots> = 2 powi q * 2 ^ 53"
    by (subst power_int_add) auto
  finally have "\<bar>x\<bar> / 2 powi q < 2 ^ 53"
    using pq by (simp add: field_simps)
  then have zb: "\<bar>z\<bar> < 2 ^ 53" using pq by (simp add: z_def abs_divide)
  have "\<bar>of_int n - z\<bar> \<le> 1 / 2" unfolding n_def by (rule roundHalfEven_error)
  then have "\<bar>(of_int n :: rat)\<bar> < 2 ^ 53 + 1" using zb by linarith
  then have "(of_int \<bar>n\<bar> :: rat) < of_int (2 ^ 53 + 1)" by simp
  then have "\<bar>n\<bar> < 2 ^ 53 + 1" by (simp only: of_int_less_iff)
  then have nb: "\<bar>n\<bar> \<le> 2 ^ 53" by simp
  define q' where "q' = max (floorlog2 \<bar>y\<bar> - 52) (- 1074)"
  have py: "0 < \<bar>y\<bar>" using y0 by simp
  have ay: "\<bar>y\<bar> = of_int \<bar>n\<bar> * 2 powi q" using pq by (simp add: y abs_mult)
  have "\<exists>n2 q2. y = of_int n2 * 2 powi q2 \<and> q' \<le> q2"
  proof (cases "\<bar>n\<bar> < 2 ^ 53")
    case True
    then have "\<bar>n\<bar> + 1 \<le> 2 ^ 53" by simp
    then have "(of_int (\<bar>n\<bar> + 1) :: rat) \<le> of_int (2 ^ 53)" by (simp only: of_int_le_iff)
    then have "(of_int \<bar>n\<bar> :: rat) < 2 ^ 53" by simp
    then have "\<bar>y\<bar> < 2 ^ 53 * 2 powi q" unfolding ay using pq by (simp add: mult_strict_right_mono)
    also have "\<dots> = 2 powi (q + 52 + 1)" by (subst power_int_add) (auto simp: power_int_add)
    finally have "floorlog2 \<bar>y\<bar> \<le> q + 52" using floorlog2_le[OF py] by blast
    then have "q' \<le> q" by (simp add: q'_def q_def)
    then show ?thesis using y by blast
  next
    case False
    with nb have an: "\<bar>n\<bar> = 2 ^ 53" by simp
    then have "n = 2 ^ 53 \<or> n = - (2 ^ 53)" by linarith
    then have ev: "n = 2 * (n div 2)" by auto
    have "(of_int \<bar>n\<bar> :: rat) = 2 ^ 53" unfolding an by simp
    then have "\<bar>y\<bar> = 2 ^ 53 * 2 powi q" unfolding ay by simp
    also have "\<dots> < 2 ^ 54 * 2 powi q" using pq by (simp add: mult_strict_right_mono)
    also have "\<dots> = 2 powi (q + 53 + 1)" by (subst power_int_add) (auto simp: power_int_add)
    finally have "floorlog2 \<bar>y\<bar> \<le> q + 53" using floorlog2_le[OF py] by blast
    then have le: "q' \<le> q + 1" by (simp add: q'_def q_def)
    have "(of_int n :: rat) = 2 * of_int (n div 2)"
      using ev by (metis of_int_mult of_int_numeral)
    then have "y = of_int (n div 2) * 2 powi (q + 1)"
      unfolding y by (subst power_int_add) auto
    then show ?thesis using le by blast
  qed
  then obtain n2 q2 where y2: "y = of_int n2 * 2 powi q2" and le: "q' \<le> q2" by blast
  from powi_quotient_int[OF le, of n2] obtain m where m: "y / 2 powi q' = of_int m"
    unfolding y2 by blast
  have "of_int m * 2 powi q' = y"
    using m by (simp add: field_simps)
  then show ?thesis
    using y0 r unfolding binary64_def Let_def q'_def[symmetric] m roundHalfEven_of_int
    by simp
qed

lemma isBinary64_binary64: "isBinary64 (binary64 x)"
proof (cases "binary64 x")
  case (Fin y)
  then show ?thesis using binary64_idem[OF Fin] by simp
qed simp_all

lemma js_times_one: "isBinary64 v \<Longrightarrow> js_times v (Fin 1) = v"
  by (cases v) simp_all

lemma isBinary64_js_times: "isBinary64 (js_times a b)"
  by (cases a; cases b) (simp_all add: isBinary64_binary64)

lemma js_one_times: "isBinary64 v \<Longrightarrow> js_times (Fin 1) v = v"
  by (cases v) simp_all

lemma binary64_1: "binary64 1 = Fin 1"
  by (rule binary64_eqI[where e = 0 and n = 4503599627370496 and q = "- 52"]) simp_all

lemma binary64_12: "binary64 (12 / 10) = Fin (5404319552844595 / 4503599627370496)"
  by (rule binary64_eqI[where e = 0 and n = 5404319552844595 and q = "- 52"]) simp_all

lemma binary64_06: "binary64 (6 / 10) = Fin (5404319552844595 / 9007199254740992)"
  by (rule binary64_eqI[where e = "- 1" and n = 5404319552844595 and q = "- 53"]) simp_all

lemma binary64_11: "binary64 (11 / 10) = Fin (2476979795053773 / 2251799813685248)"
  by (rule binary64_eqI[where e = 0 and n = 4953959590107546 and q = "- 52"]) simp_all

lemma binary64_09: "binary64 (9 / 10) = Fin (8106479329266893 / 9007199254740992)"
  by (rule binary64_eqI[where e = "- 1" and n = 8106479329266893 and q = "- 53"]) simp_all

lemma binary64_1109:
  "binary64 (2476979795053773 / 2251799813685248 * (8106479329266893 / 9007199254740992))
     = Fin (8917127262193583 / 9007199254740992)"
  by (rule binary64_eqI[where e = "- 1" and n = 8917127262193583 and q = "- 53"]) simp_all

lemma Math_round_bounds:
  "\<exists>r. Math_round (Fin y) = Fin r \<and> y - 1 / 2 < r \<and> r \<le> y + 1 / 2 \<and>
     (13 / 2 \<le> y \<longrightarrow> 7 \<le> r)"
proof -
  define k where "k = \<lfloor>y + 1 / 2\<rfloor>"
  have f: "of_int k \<le> y + 1 / 2" "y + 1 / 2 < of_int k + 1"
    unfolding k_def by linarith+
  have "7 \<le> (of_int k :: rat)" if "13 / 2 \<le> y"
  proof -
    have "(7::rat) \<le> y + 1 / 2" using that by simp
    then have "7 \<le> k" unfolding k_def by (simp add: le_floor_iff)
    then have "(of_int 7 :: rat) \<le> of_int k" by (simp only: of_int_le_iff)
    then show ?thesis by simp
  qed
  then show ?thesis using f by (auto simp: k_def)
qed

lemma roundTwo_fin:
  assumes "1 / 64 \<le> a * t" "a * t * (1001 / 10) \<le> 2 ^ 1024"
  shows "\<exists>v. roundTwoDecimals (js_times (Fin a) (Fin t)) = Fin v \<and>
    a * t * (1 - 1 / 2 ^ 50) - 1 / 200 \<le> v \<and> v \<le> a * t * (1 + 1 / 2 ^ 50) + 1 / 199"
proof -
  define P where "P = a * t"
  have P: "1 / 64 \<le> P" "P * (1001 / 10) \<le> 2 ^ 1024" using assms by (simp_all add: P_def)
  have "\<exists>y. binary64 P = Fin y \<and> P * (1 - 1 / 2 ^ 53) \<le> y \<and> y \<le> P * (1 + 1 / 2 ^ 53)"
    using P by (intro binary64_fin) simp_all
  then obtain y2 where y2: "binary64 P = Fin y2" "P * (1 - 1 / 2 ^ 53) \<le> y2"
    "y2 \<le> P * (1 + 1 / 2 ^ 53)" by blast
  have "\<exists>y. binary64 (y2 * 100) = Fin y \<and> y2 * 100 * (1 - 1 / 2 ^ 53) \<le> y \<and>
      y \<le> y2 * 100 * (1 + 1 / 2 ^ 53)"
    using P y2(2,3) by (intro binary64_fin) simp_all
  then obtain y3 where y3: "binary64 (y2 * 100) = Fin y3" "y2 * 100 * (1 - 1 / 2 ^ 53) \<le> y3"
    "y3 \<le> y2 * 100 * (1 + 1 / 2 ^ 53)" by blast
  from Math_round_bounds[of y3] obtain r where
    r: "Math_round (Fin y3) = Fin r" "y3 - 1 / 2 < r" "r \<le> y3 + 1 / 2" by blast
  have "\<exists>y. binary64 (r / 100) = Fin y \<and> r / 100 * (1 - 1 / 2 ^ 53) \<le> y \<and>
      y \<le> r / 100 * (1 + 1 / 2 ^ 53)"
    using P y2(2,3) y3(2,3) r(2,3) by (intro binary64_fin) simp_all
  then obtain v where v: "binary64 (r / 100) = Fin v" "r / 100 * (1 - 1 / 2 ^ 53) \<le> v"
    "v \<le> r / 100 * (1 + 1 / 2 ^ 53)" by blast
  have e: "roundTwoDecimals (js_times (Fin a) (Fin t)) = Fin v"
    by (simp add: roundTwoDecimals_def P_def[symmetric] y2(1) y3(1) r(1) v(1)
        del: Math_round.simps)
  have "P * (1 - 1 / 2 ^ 50) - 1 / 200 \<le> v"
    using P y2(2) y3(2) r(2) v(2) by simp
  moreover have "v \<le> P * (1 + 1 / 2 ^ 50) + 1 / 199"
    using P y2(3) y3(3) r(3) v(3) by simp
  ultimately show ?thesis using e unfolding P_def by blast
qed


lemma roundTwo_lower:
  assumes "1 / 64 \<le> a * t" "a * t * 2 \<le> 2 ^ 1024"
  shows "roundTwoDecimals (js_times (Fin a) (Fin t)) = PosInf \<or>
    (\<exists>v. roundTwoDecimals (js_times (Fin a) (Fin t)) = Fin v \<and>
       a * t * (1 - 1 / 2 ^ 50) - 1 / 200 \<le> v \<and>
       (13 / 2 \<le> a * t * 100 * (1 - 1 / 2 ^ 51) \<longrightarrow> 7 / 100 * (1 - 1 / 2 ^ 53) \<le> v))"
proof -
  define P where "P = a * t"
  have P: "1 / 64 \<le> P" "P * 2 \<le> 2 ^ 1024" using assms by (simp_all add: P_def)
  have "\<exists>y. binary64 P = Fin y \<and> P * (1 - 1 / 2 ^ 53) \<le> y \<and> y \<le> P * (1 + 1 / 2 ^ 53)"
    using P by (intro binary64_fin) simp_all
  then obtain y2 where y2: "binary64 P = Fin y2" "P * (1 - 1 / 2 ^ 53) \<le> y2"
    "y2 \<le> P * (1 + 1 / 2 ^ 53)" by blast
  have "\<exists>y. binary64 (y2 * 100) = (if 2 ^ 1024 \<le> y then PosInf else Fin y) \<and>
      y2 * 100 * (1 - 1 / 2 ^ 53) \<le> y \<and> y \<le> y2 * 100 * (1 + 1 / 2 ^ 53)"
    using P y2(2) by (intro binary64_core) simp_all
  then obtain y3 where y3: "binary64 (y2 * 100) = (if 2 ^ 1024 \<le> y3 then PosInf else Fin y3)"
    "y2 * 100 * (1 - 1 / 2 ^ 53) \<le> y3" by blast
  show ?thesis
  proof (cases "2 ^ 1024 \<le> y3")
    case True
    then have "roundTwoDecimals (js_times (Fin a) (Fin t)) = PosInf"
      by (simp add: roundTwoDecimals_def P_def[symmetric] y2(1) y3(1))
    then show ?thesis by blast
  next
    case False
    from Math_round_bounds[of y3] obtain r where
      r: "Math_round (Fin y3) = Fin r" "y3 - 1 / 2 < r" "13 / 2 \<le> y3 \<longrightarrow> 7 \<le> r" by blast
    have "\<exists>y. binary64 (r / 100) = (if 2 ^ 1024 \<le> y then PosInf else Fin y) \<and>
        r / 100 * (1 - 1 / 2 ^ 53) \<le> y \<and> y \<le> r / 100 * (1 + 1 / 2 ^ 53)"
      using P y2(2) y3(2) r(2) by (intro binary64_core) simp_all
    then obtain v where v: "binary64 (r / 100) = (if 2 ^ 1024 \<le> v then PosInf else Fin v)"
      "r / 100 * (1 - 1 / 2 ^ 53) \<le> v" by blast
    have e: "roundTwoDecimals (js_times (Fin a) (Fin t)) = (if 2 ^ 1024 \<le> v then PosInf else Fin v)"
      using False
      by (simp add: roundTwoDecimals_def P_def[symmetric] y2(1) y3(1) r(1) v(1)
          del: Math_round.simps)
    have l: "P * (1 - 1 / 2 ^ 50) - 1 / 200 \<le> v"
      using P y2(2) y3(2) r(2) v(2) by simp
    have i: "7 / 100 * (1 - 1 / 2 ^ 53) \<le> v" if "13 / 2 \<le> P * 100 * (1 - 1 / 2 ^ 51)"
    proof -
      have "13 / 2 \<le> y3" using that P y2(2) y3(2) by simp
      then have "7 \<le> r" using r(3) by blast
      then show ?thesis using v(2) by simp
    qed
    show ?thesis
      using e l i unfolding P_def by (cases "2 ^ 1024 \<le> v") auto
  qed
qed

section \<open>Adjusted values\<close>

(*ADJ*)

section \<open>Merging players\<close>

lemma normalize_henry:
  "normalizePlayerName ''Derrick Henry'' = ''derrick henry''"
  "normalizePlayerName ''Derrick Henry Jr.'' = ''derrick henry''"
  by code_simp+

lemma mergeOne_team:
  "team (fst (mergeOne b srcs (m, cs) p))
     = (if team p \<noteq> team b \<and> team p \<noteq> [] \<and> team m = [] then team p else team m)"
  by (auto simp: mergeOne_def Let_def split: PlayerStats.splits prod.splits)

lemma mergeOne_conflicts:
  "snd (mergeOne b srcs (m, cs) p) =
     cs @ (if team p \<noteq> team b
           then [\<lparr> c_playerId = pid b, c_playerName = name b, conflictType = TeamConflict,
                   sources = srcs \<rparr>] else [])
        @ (if position p \<noteq> position b
           then [\<lparr> c_playerId = pid b, c_playerName = name b,
                   conflictType = PositionConflict, sources = srcs \<rparr>] else [])"
  by (auto simp: mergeOne_def Let_def split: PlayerStats.splits prod.splits)

text \<open>
  Claim C9, as the code has it. Merging a record with the name "Derrick Henry" and the team
  "BAL" followed by a record with the name "Derrick Henry Jr." and the empty team gives
  exactly one canonical player, whose team is "BAL". The conflict report is not empty: the
  empty team is not the team of the base record, so one team conflict is logged (and a
  position conflict after it, should the positions of the two records differ).
\<close>

theorem merge_derrick_henry:
  assumes "name a = ''Derrick Henry''" "team a = ''BAL''"
    "name b = ''Derrick Henry Jr.''" "team b = []"
  shows "length (mergedPlayers (mergePlayersFromSources [a, b] srcs db)) = 1 \<and>
    team (hd (mergedPlayers (mergePlayersFromSources [a, b] srcs db))) = ''BAL'' \<and>
    conflicts (mergePlayersFromSources [a, b] srcs db) =
      \<lparr> c_playerId = pid a, c_playerName = name a, conflictType = TeamConflict,
        sources = srcs \<rparr>
      # (if position b \<noteq> position a
         then [\<lparr> c_playerId = pid a, c_playerName = name a,
                 conflictType = PositionConflict, sources = srcs \<rparr>]
         else [])"
proof -
  have g: "groupByName [a, b] = [(''derrick henry'', [a, b])]"
    using assms by (simp add: groupByName_def normalize_henry Let_def)
  obtain m cs where mc: "mergeOne a srcs (a, []) b = (m, cs)"
    by (cases "mergeOne a srcs (a, []) b")
  have t: "team m = ''BAL''"
    using mergeOne_team[of a srcs a "[]" b] mc assms by simp
  have c: "cs =
      \<lparr> c_playerId = pid a, c_playerName = name a, conflictType = TeamConflict,
        sources = srcs \<rparr>
      # (if position b \<noteq> position a
         then [\<lparr> c_playerId = pid a, c_playerName = name a,
                 conflictType = PositionConflict, sources = srcs \<rparr>]
         else [])"
    using mergeOne_conflicts[of a srcs a "[]" b] mc assms by simp
  show ?thesis
    using t c by (simp add: mergePlayersFromSources_def g mergePlayerData_def mc)
qed

theorem merge_derrick_henry_witness:
  "name henryA = ''Derrick Henry'' \<and> team henryA = ''BAL'' \<and>
   name henryB = ''Derrick Henry Jr.'' \<and> team henryB = [] \<and>
   length (mergedPlayers (mergePlayersFromSources [henryA, henryB] henrySources [])) = 1 \<and>
   team (hd (mergedPlayers (mergePlayersFromSources [henryA, henryB] henrySources []))) = ''BAL'' \<and>
   length (conflicts (mergePlayersFromSources [henryA, henryB] henrySources [])) = 1"
proof -
  have h: "name henryA = ''Derrick Henry''" "team henryA = ''BAL''"
    "name henryB = ''Derrick Henry Jr.''" "team henryB = []"
    by (simp_all add: henryA_def henryB_def)
  have p: "position henryB = position henryA"
    by (simp add: henryA_def henryB_def)
  from merge_derrick_henry[OF h, of henrySources "[]"] h p show ?thesis
    by simp
qed

text \<open>The claim as it is stated fails: the merge of the two records reports a conflict.\<close>

theorem merge_derrick_henry_counterexample:
  "mergedPlayers (mergePlayersFromSources [henryA, henryB] henrySources []) = [henryA] \<and>
   conflicts (mergePlayersFromSources [henryA, henryB] henrySources []) =
     [\<lparr> c_playerId = ''derrick-henry-bal-rb'', c_playerName = ''Derrick Henry'',
        conflictType = TeamConflict, sources = [''A.csv'', ''B.csv''] \<rparr>] \<and>
   conflicts (mergePlayersFromSources [henryA, henryB] henrySources []) \<noteq> []"
proof -
  have m: "mergedPlayers (mergePlayersFromSources [henryA, henryB] henrySources []) = [henryA]"
    by code_simp
  have c: "conflicts (mergePlayersFromSources [henryA, henryB] henrySources []) =
     [\<lparr> c_playerId = ''derrick-henry-bal-rb'', c_playerName = ''Derrick Henry'',
        conflictType = TeamConflict, sources = [''A.csv'', ''B.csv''] \<rparr>]"
    by code_simp
  show ?thesis
    unfolding c m by simp
qed

section \<open>Undoing a pick\<close>

lemma mset_insort_cmp: "mset (insort_cmp cmp x xs) = add_mset x (mset xs)"
  by (induction xs) auto

lemma mset_js_sort: "mset (js_sort cmp xs) = mset xs"
  unfolding js_sort_def by (induction xs) (auto simp: mset_insort_cmp)

lemma set_js_sort: "set (js_sort cmp xs) = set xs"
  using mset_js_sort[of cmp xs] by (metis set_mset_mset)

lemma filter_pid_remove1:
  "filter (\<lambda>q. pid q = pid p) xs = [p] \<Longrightarrow> filter (\<lambda>q. pid q \<noteq> pid p) xs = remove1 p xs"
proof (induction xs)
  case Nil
  then show ?case by simp
next
  case (Cons x xs)
  show ?case
  proof (cases "pid x = pid p")
    case True
    with Cons.prems have x: "x = p" and e: "filter (\<lambda>q. pid q = pid p) xs = []" by auto
    from e have "\<forall>q \<in> set xs. pid q \<noteq> pid p" by (simp add: filter_empty_conv)
    then show ?thesis using x by (simp add: filter_pid_id)
  next
    case False
    then have "x \<noteq> p" by auto
    with Cons False show ?thesis by simp
  qed
qed

lemma filter_pid_member:
  "filter (\<lambda>q. pid q = pid p) xs = [p] \<Longrightarrow> p \<in> set xs"
proof -
  assume "filter (\<lambda>q. pid q = pid p) xs = [p]"
  then have "p \<in> set (filter (\<lambda>q. pid q = pid p) xs)" by simp
  then show ?thesis by simp
qed

lemma foldr_insort_sorted:
  "sorted_wrt (\<lambda>a b. cmp a b \<le> 0) (xs @ zs) \<Longrightarrow> foldr (insort_cmp cmp) xs zs = xs @ zs"
proof (induction xs)
  case Nil
  then show ?case by simp
next
  case (Cons x xs)
  then have ih: "foldr (insort_cmp cmp) xs zs = xs @ zs" by simp
  show ?case
  proof (cases "xs @ zs")
    case Nil
    then show ?thesis using ih by simp
  next
    case (Cons y ys)
    with Cons.prems have "cmp x y \<le> 0" by auto
    then show ?thesis using ih Cons by simp
  qed
qed

lemma foldr_insort_above:
  assumes "\<forall>y \<in> set ys. 0 < cmp y p" "sorted_wrt (\<lambda>a b. cmp a b \<le> 0) ys"
  shows "foldr (insort_cmp cmp) ys [p] = p # ys"
  using assms
proof (induction ys)
  case Nil
  then show ?case by simp
next
  case (Cons y ys)
  then have ih: "foldr (insort_cmp cmp) ys [p] = p # ys" by simp
  have "insort_cmp cmp y ys = y # ys"
    using Cons.prems(2) by (cases ys) auto
  then show ?case using ih Cons.prems(1) by simp
qed

lemma js_sort_reinsert:
  assumes anti: "\<forall>a b. cmp a b < 0 \<longrightarrow> 0 < cmp b a"
    and srt: "sorted_wrt (\<lambda>a b. cmp a b < 0) av"
    and mem: "p \<in> set av"
  shows "js_sort cmp (remove1 p av @ [p]) = av"
proof -
  from mem obtain xs ys where av: "av = xs @ p # ys" and nx: "p \<notin> set xs"
    by (meson split_list_first)
  have r: "remove1 p av = xs @ ys" using av nx by (simp add: remove1_append)
  have s1: "sorted_wrt (\<lambda>a b. cmp a b < 0) ys" "\<forall>y \<in> set ys. cmp p y < 0"
    "sorted_wrt (\<lambda>a b. cmp a b < 0) (xs @ p # ys)"
    using srt av by (auto simp: sorted_wrt_append)
  have le: "sorted_wrt (\<lambda>a b. cmp a b \<le> 0) zs" if "sorted_wrt (\<lambda>a b. cmp a b < 0) zs" for zs
    using that by (rule sorted_wrt_mono_rel[rotated]) auto
  have a: "foldr (insort_cmp cmp) ys [p] = p # ys"
    using foldr_insort_above[of ys cmp p] s1 anti le by auto
  have "js_sort cmp (remove1 p av @ [p]) = foldr (insort_cmp cmp) xs (foldr (insort_cmp cmp) ys [p])"
    by (simp add: js_sort_def r)
  also have "\<dots> = xs @ p # ys"
    unfolding a using foldr_insort_sorted[of cmp xs "p # ys"] le[OF s1(3)] by simp
  finally show ?thesis using av by simp
qed

lemma removeFromRoster_addToRoster:
  assumes "\<forall>k < length ts. i = Some (int k) \<longrightarrow> (\<forall>q \<in> set (roster (ts ! k)). pid q \<noteq> pid p)"
  shows "removeFromRoster i p (addToRoster i p ts) = ts"
proof (rule nth_equalityI)
  show "length (removeFromRoster i p (addToRoster i p ts)) = length ts"
    by (simp add: length_removeFromRoster length_addToRoster)
next
  fix k assume "k < length (removeFromRoster i p (addToRoster i p ts))"
  then have k: "k < length ts" by (simp add: length_removeFromRoster length_addToRoster)
  show "removeFromRoster i p (addToRoster i p ts) ! k = ts ! k"
    using k assms
    by (auto simp: nth_removeFromRoster nth_addToRoster length_addToRoster filter_pid_id)
qed

lemma codeCompare_antisym: "codeCompare a b < 0 \<Longrightarrow> 0 < codeCompare b a"
  by (induction a b rule: codeCompare.induct) (auto split: if_splits)

text \<open>
  Claim C3, as the code has it. In a configured session, for a player of \<open>availablePlayers\<close>
  whose id no other available player and no player on the roster of the current team has,
  \<open>makePick\<close> followed by \<open>undoLastPick\<close> gives back the pick log, every roster,
  \<open>currentPick\<close> and \<open>currentTeamIndex\<close> (and the settings and the activity flag) as they
  were. \<open>availablePlayers\<close> is the pool without the player, the player put at its end, sorted
  by name: the same players, and in the order before the pick when that one was strictly
  ascending by name. \<open>timeRemaining\<close> is the configured \<open>pickTimeLimit\<close>, not the time left
  before the pick.
\<close>

theorem makePick_undoLastPick:
  assumes "settings s = Some st"
    and "filter (\<lambda>q. pid q = pid p) (availablePlayers s) = [p]"
    and "\<forall>k < length (teams s). currentTeamIndex s = Some (int k) \<longrightarrow>
           (\<forall>q \<in> set (roster (teams s ! k)). pid q \<noteq> pid p)"
  shows "undoLastPick cmp (makePick now p s) =
      s\<lparr> availablePlayers :=
           js_sort (\<lambda>a b. cmp (name a) (name b)) (remove1 p (availablePlayers s) @ [p]),
         timeRemaining := pickTimeLimit st \<rparr> \<and>
    mset (availablePlayers (undoLastPick cmp (makePick now p s))) = mset (availablePlayers s) \<and>
    ((\<forall>a b. cmp a b < 0 \<longrightarrow> 0 < cmp b a) \<and>
       sorted_wrt (\<lambda>a b. cmp (name a) (name b) < 0) (availablePlayers s) \<longrightarrow>
     availablePlayers (undoLastPick cmp (makePick now p s)) = availablePlayers s)"
proof -
  let ?byName = "\<lambda>a b. cmp (name a) (name b)"
  have mem: "p \<in> set (availablePlayers s)"
    using filter_pid_member[OF assms(2)] .
  have t: "removeFromRoster (currentTeamIndex s) p (addToRoster (currentTeamIndex s) p (teams s)) = teams s"
    using removeFromRoster_addToRoster[of "teams s" "currentTeamIndex s" p] assms(3) by auto
  have f: "filter (\<lambda>q. pid q \<noteq> pid p) (availablePlayers s) = remove1 p (availablePlayers s)"
    using filter_pid_remove1[OF assms(2)] .
  have 1: "undoLastPick cmp (makePick now p s) =
      s\<lparr> availablePlayers := js_sort ?byName (remove1 p (availablePlayers s) @ [p]),
         timeRemaining := pickTimeLimit st \<rparr>"
    using assms(1) t by (simp add: undoLastPick_def makePick_def Let_def f)
  have av: "availablePlayers (undoLastPick cmp (makePick now p s))
      = js_sort ?byName (remove1 p (availablePlayers s) @ [p])"
    unfolding 1 by simp
  have 2: "mset (availablePlayers (undoLastPick cmp (makePick now p s))) = mset (availablePlayers s)"
    unfolding av using mem by (simp add: mset_js_sort)
  have 3: "availablePlayers (undoLastPick cmp (makePick now p s)) = availablePlayers s"
    if "\<forall>a b. cmp a b < 0 \<longrightarrow> 0 < cmp b a" "sorted_wrt (\<lambda>a b. cmp (name a) (name b) < 0) (availablePlayers s)"
    unfolding av using js_sort_reinsert[of ?byName "availablePlayers s" p] that mem by auto
  from 1 2 3 show ?thesis by blast
qed

theorem makePick_undoLastPick_witness:
  "settings sortedSession = Some (quickSettings 2 1 snake 120) \<and>
   availablePlayers sortedSession = [playerA, playerB, playerC] \<and>
   pid playerA \<noteq> pid playerB \<and> pid playerC \<noteq> pid playerB \<and>
   js_sort (\<lambda>a b. codeCompare (name a) (name b))
     (remove1 playerB (availablePlayers sortedSession) @ [playerB]) = [playerA, playerB, playerC] \<and>
   undoLastPick codeCompare (makePick 0 playerB sortedSession) = sortedSession"
proof -
  have h1: "settings sortedSession = Some (quickSettings 2 1 snake 120)"
    by (simp add: sortedSession_def initializeDraft_def)
  have av: "availablePlayers sortedSession = [playerA, playerB, playerC]"
    by (simp add: sortedSession_def initializeDraft_def)
  have ids: "pid playerA \<noteq> pid playerB" "pid playerC \<noteq> pid playerB"
    by (simp_all add: playerA_def playerB_def playerC_def mkPlayer_def)
  have h2: "filter (\<lambda>q. pid q = pid playerB) (availablePlayers sortedSession) = [playerB]"
    using ids by (simp add: av)
  have h4: "\<forall>k < length (teams sortedSession).
      currentTeamIndex sortedSession = Some (int k) \<longrightarrow>
      (\<forall>q \<in> set (roster (teams sortedSession ! k)). pid q \<noteq> pid playerB)"
    by (simp add: sortedSession_def initializeDraft_def quickTeams_def)
  have h5: "\<forall>a b. codeCompare a b < 0 \<longrightarrow> 0 < codeCompare b a"
    using codeCompare_antisym by blast
  have h6: "sorted_wrt (\<lambda>a b. codeCompare (name a) (name b) < 0)
      (availablePlayers sortedSession)"
    by (simp add: av playerA_def playerB_def playerC_def mkPlayer_def)
  have t: "timeRemaining sortedSession = pickTimeLimit (quickSettings 2 1 snake 120)"
    by (simp add: sortedSession_def initializeDraft_def)
  note r = makePick_undoLastPick[OF h1 h2 h4, of codeCompare 0]
  from r h5 h6 have e: "availablePlayers (undoLastPick codeCompare (makePick 0 playerB sortedSession))
      = availablePlayers sortedSession"
    by blast
  from r have u: "undoLastPick codeCompare (makePick 0 playerB sortedSession) =
      sortedSession\<lparr> availablePlayers :=
           js_sort (\<lambda>a b. codeCompare (name a) (name b))
             (remove1 playerB (availablePlayers sortedSession) @ [playerB]),
         timeRemaining := pickTimeLimit (quickSettings 2 1 snake 120) \<rparr>"
    by blast
  have "availablePlayers (undoLastPick codeCompare (makePick 0 playerB sortedSession)) =
      js_sort (\<lambda>a b. codeCompare (name a) (name b))
        (remove1 playerB (availablePlayers sortedSession) @ [playerB])"
    by (subst u) simp
  with e have j: "js_sort (\<lambda>a b. codeCompare (name a) (name b))
      (remove1 playerB (availablePlayers sortedSession) @ [playerB]) = availablePlayers sortedSession"
    by simp
  from u have "undoLastPick codeCompare (makePick 0 playerB sortedSession) =
      sortedSession\<lparr> availablePlayers := availablePlayers sortedSession,
        timeRemaining := timeRemaining sortedSession \<rparr>"
    unfolding j t by simp
  then show ?thesis
    using h1 av ids j by simp
qed

text \<open>
  The claim as it is stated fails. In \<open>timedSession\<close> the pool is in the order B, A, C and
  30 seconds are left; after the pick of A and its undo the pool is in the order A, B, C
  and 120 seconds are left.
\<close>

theorem makePick_undoLastPick_counterexample:
  "playerA \<in> set (availablePlayers timedSession) \<and>
   availablePlayers timedSession = [playerB, playerA, playerC] \<and>
   availablePlayers (undoLastPick codeCompare (makePick 0 playerA timedSession))
     = [playerA, playerB, playerC] \<and>
   timeRemaining timedSession = 30 \<and>
   timeRemaining (undoLastPick codeCompare (makePick 0 playerA timedSession)) = 120 \<and>
   undoLastPick codeCompare (makePick 0 playerA timedSession) \<noteq> timedSession"
proof -
  have a: "availablePlayers timedSession = [playerB, playerA, playerC]"
    by (simp add: timedSession_def updateTimer_def example_defs)
  have b: "availablePlayers (undoLastPick codeCompare (makePick 0 playerA timedSession))
      = [playerA, playerB, playerC]"
    by code_simp
  have c: "timeRemaining timedSession = 30"
    by (simp add: timedSession_def updateTimer_def)
  have d: "timeRemaining (undoLastPick codeCompare (makePick 0 playerA timedSession)) = 120"
    by code_simp
  have "undoLastPick codeCompare (makePick 0 playerA timedSession) \<noteq> timedSession"
    using c d by auto
  then show ?thesis
    using a b c d by simp
qed

section \<open>The pool is partitioned\<close>

lemma in_rostered_iff:
  "q \<in> rostered s \<longleftrightarrow> (\<exists>k < length (teams s). q \<in> set (roster (teams s ! k)))"
  unfolding rostered_def by (simp add: Bex_def) (metis in_set_conv_nth)

lemma js_rem_nonneg:
  assumes "0 \<le> a" "0 < b"
  shows "\<exists>x. js_rem a b = Some x \<and> 0 \<le> x \<and> x < b"
  using assms by (cases "a = 0") (auto simp: js_rem_def)

lemma makePick_next_in_range:
  assumes "0 < numberOfTeams st" "1 \<le> cp" "cti = Some i" "0 \<le> i"
  shows "\<exists>j. makePick_nextTeamIndex st cp cti = Some j \<and> 0 \<le> j \<and> j < numberOfTeams st"
proof -
  obtain x where x: "js_rem (cp - 1) (numberOfTeams st) = Some x" "0 \<le> x" "x < numberOfTeams st"
    using js_rem_nonneg[of "cp - 1" "numberOfTeams st"] assms by auto
  obtain y where y: "js_rem (i + 1) (numberOfTeams st) = Some y" "0 \<le> y" "y < numberOfTeams st"
    using js_rem_nonneg[of "i + 1" "numberOfTeams st"] assms by auto
  show ?thesis
    using x y assms(1,3) by (auto simp: makePick_nextTeamIndex_def Let_def)
qed

lemma markPlayerAsDrafted_next_in_range:
  assumes "0 < numberOfTeams st" "1 \<le> cp" "0 \<le> i"
  shows "\<exists>j. markPlayerAsDrafted_nextTeamIndex (Some st) (cp + 1) (Some i) = Some j \<and>
    0 \<le> j \<and> j < numberOfTeams st"
proof -
  obtain x where x: "js_rem cp (numberOfTeams st) = Some x" "0 \<le> x" "x < numberOfTeams st"
    using js_rem_nonneg[of cp "numberOfTeams st"] assms by auto
  obtain y where y: "js_rem (i + 1) (numberOfTeams st) = Some y" "0 \<le> y" "y < numberOfTeams st"
    using js_rem_nonneg[of "i + 1" "numberOfTeams st"] assms by auto
  show ?thesis
    using x y assms(1) by (auto simp: markPlayerAsDrafted_nextTeamIndex_def Let_def)
qed

lemma in_range_nat:
  assumes "0 \<le> j" "j < int n"
  shows "\<exists>k < n. Some j = Some (int k)"
  using assms by (intro exI[of _ "nat j"]) auto


lemma sessionInv_pick:
  assumes inv: "sessionInv pool s"
    and p: "p \<in> set (availablePlayers s)"
    and i: "i < length (teams s)"
    and T: "teams s' = addToRoster (Some (int i)) p (teams s)"
    and A: "availablePlayers s' = filter (\<lambda>q. pid q \<noteq> pid p) (availablePlayers s)"
    and P: "picks s' = picks s @ [\<lparr> pickNumber = currentPick s, teamIndex = Some (int i),
              player = Some p, timestamp = tm \<rparr>]"
    and C: "currentPick s' = currentPick s + 1"
    and S: "settings s' = settings s"
    and I: "\<exists>j < length (teams s). currentTeamIndex s' = Some (int j)"
  shows "sessionInv pool s'"
proof -
  from inv have dpool: "distinct (map pid pool)"
    and st: "\<exists>st. settings s = Some st \<and> numberOfTeams st = int (length (teams s))"
    and cp: "1 \<le> currentPick s"
    and dj: "set (availablePlayers s) \<inter> rostered s = {}"
    and un: "set (availablePlayers s) \<union> rostered s = set pool"
    and dr: "disjointRosters (teams s)"
    and lg: "loggedOnRosters s"
    by (auto simp: sessionInv_def poolPartition_def)
  have len: "length (teams s') = length (teams s)"
    by (simp add: T length_addToRoster)
  have nth: "roster (teams s' ! k) = (if k = i then roster (teams s ! k) @ [p] else roster (teams s ! k))"
    if "k < length (teams s)" for k
    using that by (simp add: T nth_addToRoster)
  have ro: "rostered s' = insert p (rostered s)"
  proof (rule set_eqI)
    fix q
    show "q \<in> rostered s' \<longleftrightarrow> q \<in> insert p (rostered s)"
    proof
      assume "q \<in> rostered s'"
      then obtain k where k: "k < length (teams s)" "q \<in> set (roster (teams s' ! k))"
        unfolding in_rostered_iff len by blast
      then have "q = p \<or> q \<in> set (roster (teams s ! k))"
        by (auto simp: nth split: if_splits)
      then show "q \<in> insert p (rostered s)"
        using k(1) in_rostered_iff by auto
    next
      assume "q \<in> insert p (rostered s)"
      then consider "q = p" | "q \<in> rostered s" by auto
      then show "q \<in> rostered s'"
      proof cases
        case 1
        then have "q \<in> set (roster (teams s' ! i))" using i by (simp add: nth)
        then show ?thesis unfolding in_rostered_iff len using i by blast
      next
        case 2
        then obtain k where k: "k < length (teams s)" "q \<in> set (roster (teams s ! k))"
          unfolding in_rostered_iff by blast
        then have "q \<in> set (roster (teams s' ! k))" by (auto simp: nth)
        then show ?thesis unfolding in_rostered_iff len using k(1) by blast
      qed
    qed
  qed
  have inj: "inj_on pid (set pool)"
    using dpool by (simp add: distinct_map)
  have pnr: "p \<notin> rostered s"
    using p dj by auto
  have av: "set (availablePlayers s') = set (availablePlayers s) - {p}"
  proof -
    have "q = p" if "q \<in> set (availablePlayers s)" "pid q = pid p" for q
      using that p un inj by (auto dest: inj_onD)
    then show ?thesis unfolding A by auto
  qed
  have part: "poolPartition pool s'"
  proof -
    have "disjointRosters (teams s')"
      unfolding disjointRosters_def len
    proof (intro allI impI)
      fix a b assume ab: "a < length (teams s)" "b < length (teams s)" "a \<noteq> b"
      have o: "set (roster (teams s ! a)) \<inter> set (roster (teams s ! b)) = {}"
        using dr ab by (simp add: disjointRosters_def)
      have "p \<notin> set (roster (teams s ! a))" "p \<notin> set (roster (teams s ! b))"
        using pnr ab in_rostered_iff by blast+
      then show "set (roster (teams s' ! a)) \<inter> set (roster (teams s' ! b)) = {}"
        using o ab by (auto simp: nth)
    qed
    then show ?thesis
      unfolding poolPartition_def ro av using dj un p pnr by auto
  qed
  have logged: "loggedOnRosters s'"
  proof -
    have old: "\<exists>q k. player pk = Some q \<and> teamIndex pk = Some (int k) \<and> k < length (teams s') \<and>
        q \<in> set (roster (teams s' ! k))" "1 \<le> pickNumber pk" "player pk \<noteq> Some p"
      if "pk \<in> set (picks s)" for pk
    proof -
      from lg that obtain q k where q: "player pk = Some q" "teamIndex pk = Some (int k)"
        "k < length (teams s)" "q \<in> set (roster (teams s ! k))" and n: "1 \<le> pickNumber pk"
        unfolding loggedOnRosters_def by blast
      show "1 \<le> pickNumber pk" by (rule n)
      show "\<exists>q k. player pk = Some q \<and> teamIndex pk = Some (int k) \<and> k < length (teams s') \<and>
        q \<in> set (roster (teams s' ! k))"
        using q by (auto simp: len nth)
      show "player pk \<noteq> Some p"
        using q pnr in_rostered_iff by auto
    qed
    have new: "p \<in> set (roster (teams s' ! i))"
      using i by (simp add: nth)
    have d: "distinct (map player (picks s'))"
      using lg old(3) by (auto simp: P loggedOnRosters_def)
    show ?thesis
      unfolding loggedOnRosters_def
    proof (intro conjI ballI)
      show "distinct (map player (picks s'))" by (rule d)
    next
      fix pk assume "pk \<in> set (picks s')"
      then consider "pk \<in> set (picks s)"
        | "pk = \<lparr> pickNumber = currentPick s, teamIndex = Some (int i), player = Some p, timestamp = tm \<rparr>"
        by (auto simp: P)
      then show "1 \<le> pickNumber pk"
        by cases (use old(2) cp in auto)
    next
      fix pk assume "pk \<in> set (picks s')"
      then consider "pk \<in> set (picks s)"
        | "pk = \<lparr> pickNumber = currentPick s, teamIndex = Some (int i), player = Some p, timestamp = tm \<rparr>"
        by (auto simp: P)
      then show "\<exists>q k. player pk = Some q \<and> teamIndex pk = Some (int k) \<and> k < length (teams s') \<and>
          q \<in> set (roster (teams s' ! k))"
      proof cases
        case 1
        then show ?thesis by (rule old(1))
      next
        case 2
        then show ?thesis using new i len by auto
      qed
    qed
  qed
  show ?thesis
    unfolding sessionInv_def
    using dpool st cp part logged I by (simp add: S len C)
qed

lemma sessionInv_makePick:
  assumes inv: "sessionInv pool s" and p: "p \<in> set (availablePlayers s)"
  shows "sessionInv pool (makePick now p s)"
proof -
  from inv obtain st i where st: "settings s = Some st" "numberOfTeams st = int (length (teams s))"
    and cp: "1 \<le> currentPick s" and i: "i < length (teams s)" "currentTeamIndex s = Some (int i)"
    by (auto simp: sessionInv_def)
  have n: "0 < numberOfTeams st" using st(2) i(1) by (cases "teams s") auto
  from makePick_next_in_range[OF n cp i(2)] obtain j where
    j: "makePick_nextTeamIndex st (currentPick s) (currentTeamIndex s) = Some j" "0 \<le> j"
      "j < numberOfTeams st"
    by auto
  have I: "\<exists>k < length (teams s). currentTeamIndex (makePick now p s) = Some (int k)"
    using in_range_nat[OF j(2)] j(1,3) st by (auto simp: makePick_def Let_def)
  show ?thesis
    by (rule sessionInv_pick[OF inv p i(1) _ _ _ _ _ I, where tm = "Some now"])
       (simp_all add: makePick_def Let_def st i(2))
qed

lemma sessionInv_markPlayerAsDrafted:
  assumes inv: "sessionInv pool s" and p: "p \<in> set (availablePlayers s)"
    and ti: "0 \<le> ti" "ti < int (length (teams s))"
  shows "sessionInv pool (markPlayerAsDrafted now p (Some ti) s)"
proof -
  from inv obtain st where st: "settings s = Some st" "numberOfTeams st = int (length (teams s))"
    and cp: "1 \<le> currentPick s"
    by (auto simp: sessionInv_def)
  have n: "0 < numberOfTeams st" using st(2) ti by (cases "teams s") auto
  from markPlayerAsDrafted_next_in_range[OF n cp ti(1)] obtain j where
    j: "markPlayerAsDrafted_nextTeamIndex (Some st) (currentPick s + 1) (Some ti) = Some j" "0 \<le> j"
      "j < numberOfTeams st"
    by auto
  have I: "\<exists>k < length (teams s). currentTeamIndex (markPlayerAsDrafted now p (Some ti) s) = Some (int k)"
    using in_range_nat[OF j(2)] j(1,3) st by (auto simp: markPlayerAsDrafted_def Let_def)
  have i: "nat ti < length (teams s)" "int (nat ti) = ti" using ti by auto
  show ?thesis
    by (rule sessionInv_pick[OF inv p i(1) _ _ _ _ _ I, where tm = "Some now"])
       (simp_all add: markPlayerAsDrafted_def Let_def st i ti)
qed


lemma sessionInv_undoLastPick:
  assumes inv: "sessionInv pool s"
  shows "sessionInv pool (undoLastPick lc s)"
proof (cases "picks s = []")
  case True
  then show ?thesis using inv by (simp add: undoLastPick_def)
next
  case False
  define pk where "pk = last (picks s)"
  define s' where "s' = undoLastPick lc s"
  have pks: "picks s = butlast (picks s) @ [pk]"
    using False by (simp add: pk_def)
  from inv have dpool: "distinct (map pid pool)"
    and st: "\<exists>st. settings s = Some st \<and> numberOfTeams st = int (length (teams s))"
    and dj: "set (availablePlayers s) \<inter> rostered s = {}"
    and un: "set (availablePlayers s) \<union> rostered s = set pool"
    and dr: "disjointRosters (teams s)"
    and lg: "loggedOnRosters s"
    by (auto simp: sessionInv_def poolPartition_def)
  have "pk \<in> set (picks s)"
    using False by (simp add: pk_def)
  with lg obtain p i where pk: "player pk = Some p" "teamIndex pk = Some (int i)"
    "i < length (teams s)" "p \<in> set (roster (teams s ! i))" "1 \<le> pickNumber pk"
    unfolding loggedOnRosters_def by blast
  have T: "teams s' = removeFromRoster (Some (int i)) p (teams s)"
    and A: "availablePlayers s' =
      js_sort (\<lambda>a b. lc (name a) (name b)) (availablePlayers s @ [p])"
    and P: "picks s' = butlast (picks s)"
    and C: "currentPick s' = pickNumber pk"
    and I: "currentTeamIndex s' = Some (int i)"
    and S: "settings s' = settings s"
    using False pk(1,2) by (simp_all add: s'_def undoLastPick_def Let_def pk_def)
  have len: "length (teams s') = length (teams s)"
    by (simp add: T length_removeFromRoster)
  have inj: "inj_on pid (set pool)"
    using dpool by (simp add: distinct_map)
  have pr: "p \<in> rostered s"
    using pk(3,4) in_rostered_iff by blast
  have sub: "rostered s \<subseteq> set pool"
    using un by auto
  have flt: "set (filter (\<lambda>q. pid q \<noteq> pid p) (roster (teams s ! i))) = set (roster (teams s ! i)) - {p}"
  proof -
    have "q = p" if "q \<in> set (roster (teams s ! i))" "pid q = pid p" for q
    proof -
      have "q \<in> set pool" "p \<in> set pool"
        using that(1) pk(3) pr sub in_rostered_iff by blast+
      then show ?thesis using inj that(2) by (auto dest: inj_onD)
    qed
    then show ?thesis by auto
  qed
  have other: "p \<notin> set (roster (teams s ! k))" if "k < length (teams s)" "k \<noteq> i" for k
    using dr that pk(3,4) unfolding disjointRosters_def by blast
  have nth: "set (roster (teams s' ! k)) = set (roster (teams s ! k)) - {p}"
    if "k < length (teams s)" for k
    using that flt other by (auto simp: T nth_removeFromRoster)
  have ro: "rostered s' = rostered s - {p}"
  proof (rule set_eqI)
    fix q
    show "q \<in> rostered s' \<longleftrightarrow> q \<in> rostered s - {p}"
      unfolding in_rostered_iff Diff_iff len using nth by auto
  qed
  have av: "set (availablePlayers s') = insert p (set (availablePlayers s))"
    by (simp add: A set_js_sort)
  have part: "poolPartition pool s'"
  proof -
    have "disjointRosters (teams s')"
      using dr unfolding disjointRosters_def len by (auto simp: nth)
    then show ?thesis
      unfolding poolPartition_def ro av using dj un pr by auto
  qed
  have dist: "distinct (map player (butlast (picks s) @ [pk]))"
    using lg pks unfolding loggedOnRosters_def by metis
  have logged: "loggedOnRosters s'"
    unfolding loggedOnRosters_def P
  proof (intro conjI ballI)
    show "distinct (map player (butlast (picks s)))"
      using dist by simp
  next
    fix x assume x: "x \<in> set (butlast (picks s))"
    then have "x \<in> set (picks s)" by (rule in_set_butlastD)
    with lg show "1 \<le> pickNumber x"
      unfolding loggedOnRosters_def by blast
  next
    fix x assume x: "x \<in> set (butlast (picks s))"
    then have xs: "x \<in> set (picks s)" by (rule in_set_butlastD)
    with lg obtain q k where q: "player x = Some q" "teamIndex x = Some (int k)"
      "k < length (teams s)" "q \<in> set (roster (teams s ! k))"
      unfolding loggedOnRosters_def by blast
    have "player x \<noteq> player pk"
      using dist x by (auto simp: image_iff)
    then have "q \<noteq> p" using q(1) pk(1) by auto
    then have "q \<in> set (roster (teams s' ! k))"
      using q(3,4) by (simp add: nth)
    then show "\<exists>p i. player x = Some p \<and> teamIndex x = Some (int i) \<and> i < length (teams s') \<and>
        p \<in> set (roster (teams s' ! i))"
      using q len by auto
  qed
  have "sessionInv pool s'"
    unfolding sessionInv_def
    using dpool st part logged pk(3,5) by (simp add: S len C I)
  then show ?thesis by (simp add: s'_def)
qed

lemma sessionInv_initializeDraft:
  assumes "ts \<noteq> []" "numberOfTeams st = int (length ts)" "\<forall>t \<in> set ts. roster t = []"
    "distinct (map pid pool)"
  shows "sessionInv pool (initializeDraft st ts pool s0)"
proof -
  have "rostered (initializeDraft st ts pool s0) = {}"
    using assms(3) by (simp add: rostered_def initializeDraft_def)
  moreover have "disjointRosters ts"
    using assms(3) by (simp add: disjointRosters_def)
  moreover have "\<exists>i < length ts. Some (0 :: int) = Some (int i)"
    using assms(1) by (intro exI[of _ 0]) simp
  ultimately show ?thesis
    using assms(2,4)
    by (simp add: sessionInv_def poolPartition_def loggedOnRosters_def initializeDraft_def)
qed

lemma reachable_sessionInv: "reachable lc pool s \<Longrightarrow> sessionInv pool s"
proof (induction rule: reachable.induct)
  case (r_initializeDraft ts st s0)
  then show ?case by (simp add: sessionInv_initializeDraft)
next
  case (r_startDraft s)
  then show ?case
    by (simp add: sessionInv_def poolPartition_def loggedOnRosters_def rostered_def startDraft_def)
next
  case (r_pauseDraft s)
  then show ?case
    by (simp add: sessionInv_def poolPartition_def loggedOnRosters_def rostered_def pauseDraft_def)
next
  case (r_updateTimer s t)
  then show ?case
    by (simp add: sessionInv_def poolPartition_def loggedOnRosters_def rostered_def updateTimer_def)
next
  case (r_makePick s p now)
  then show ?case by (simp add: sessionInv_makePick)
next
  case (r_markPlayerAsDrafted s p ti now)
  then show ?case by (simp add: sessionInv_markPlayerAsDrafted)
next
  case (r_undoLastPick s)
  then show ?case by (simp add: sessionInv_undoLastPick)
qed

text \<open>
  Claim C4, as the code has it. In every state that a session reaches from an initialization
  with empty rosters, by picks of available players and by marks for teams that exist (and
  by undo, start, pause and the timer), \<open>availablePlayers\<close> and the union of the rosters
  are disjoint, their union is the pool given at the initialization, and no player is on
  two rosters.
\<close>

theorem reachable_poolPartition:
  assumes "reachable lc pool s"
  shows "poolPartition pool s"
  using reachable_sessionInv[OF assms] by (simp add: sessionInv_def)


theorem reachable_poolPartition_witness:
  "reachable codeCompare [playerA, playerB, playerC] replayedSession \<and>
   poolPartition [playerA, playerB, playerC] replayedSession \<and>
   availablePlayers replayedSession = [playerA, playerC]"
proof -
  have r0: "reachable codeCompare [playerA, playerB, playerC] sortedSession"
    unfolding sortedSession_def
    by (rule r_initializeDraft)
       (simp_all add: quickTeams_def quickSettings_def playerA_def playerB_def playerC_def
         mkPlayer_def upt_conv_Cons)
  have a1: "playerB \<in> set (availablePlayers sortedSession)"
    by (simp add: sortedSession_def initializeDraft_def)
  have r1: "reachable codeCompare [playerA, playerB, playerC] (makePick 1 playerB sortedSession)"
    by (rule r_makePick[OF r0 a1])
  have a2: "playerA \<in> set (availablePlayers (makePick 1 playerB sortedSession))"
    by (simp add: sortedSession_def initializeDraft_def makePick_def Let_def playerA_def
        playerB_def mkPlayer_def)
  have l2: "(1 :: int) < int (length (teams (makePick 1 playerB sortedSession)))"
    by (simp add: sortedSession_def initializeDraft_def makePick_def Let_def length_addToRoster
        quickTeams_def)
  have r2: "reachable codeCompare [playerA, playerB, playerC]
      (markPlayerAsDrafted 2 playerA (Some 1) (makePick 1 playerB sortedSession))"
    by (rule r_markPlayerAsDrafted[OF r1 a2 _ l2]) simp
  have r3: "reachable codeCompare [playerA, playerB, playerC] replayedSession"
    unfolding replayedSession_def by (rule r_undoLastPick[OF r2])
  have av: "availablePlayers replayedSession = [playerA, playerC]"
    by code_simp
  from reachable_poolPartition[OF r3] r3 av show ?thesis
    by simp
qed

text \<open>
  The claim as it is stated fails. Marked as drafted by the team of index -1, \<open>playerA\<close>
  leaves \<open>availablePlayers\<close> and joins no roster; and \<open>makePick\<close> puts on a roster a
  player that is not in the pool.
\<close>

theorem reachable_poolPartition_counterexample:
  "playerA \<in> set (availablePlayers sortedSession) \<and>
   playerA \<notin> set (availablePlayers (markPlayerAsDrafted 0 playerA (Some (- 1)) sortedSession)) \<and>
   playerA \<notin> rostered (markPlayerAsDrafted 0 playerA (Some (- 1)) sortedSession) \<and>
   availablePlayers smallSession = [playerB] \<and> rostered smallSession = {} \<and>
   playerA \<in> rostered (makePick 0 playerA smallSession)"
proof -
  have 1: "playerA \<in> set (availablePlayers sortedSession)"
    by (simp add: sortedSession_def initializeDraft_def)
  have 2: "playerA \<notin> set (availablePlayers (markPlayerAsDrafted 0 playerA (Some (- 1)) sortedSession))"
    by (simp add: markPlayerAsDrafted_def Let_def)
  have 3: "playerA \<notin> rostered (markPlayerAsDrafted 0 playerA (Some (- 1)) sortedSession)"
    by (simp add: markPlayerAsDrafted_def Let_def rostered_def sortedSession_def initializeDraft_def
        quickTeams_def)
  have 4: "availablePlayers smallSession = [playerB]" "rostered smallSession = {}"
    by (simp_all add: smallSession_def initializeDraft_def rostered_def quickTeams_def)
  have 5: "playerA \<in> rostered (makePick 0 playerA smallSession)"
    by (simp add: rostered_def example_defs store_defs)
  from 1 2 3 4 5 show ?thesis by simp
qed

end
